theory Spec2Isabelle
  imports Main "HOL-Library.Word" "HOL-Library.Char_ord" "HOL-Library.List_Lexorder"
begin

unbundle bit_operations_syntax

section \<open>The value model (toon.h, toon.cpp: the Value wrappers)\<close>

text \<open>
  A \<open>Toon\<close> is a shared pointer to an immutable \<open>ToonValue\<close>; the seven concrete classes
  of toon.cpp are the constructors below. A \<open>double\<close> is its IEEE-754 binary64 bit
  pattern, an \<open>int\<close> a 32-bit word. \<open>Toon::object\<close> is a \<open>std::map\<close> from strings to
  values: an association list whose keys are strictly increasing in the byte-wise
  lexicographic order of \<open>std::string\<close> (the predicate \<open>map_ok\<close>), so that the
  iteration order of the map is the order of the list.
\<close>

type_synonym double = "64 word"

datatype toon =
    ToonNull
  | ToonDouble double
  | ToonInt "32 word"
  | ToonBoolean bool
  | ToonString string
  | ToonArray "toon list"
  | ToonObject "(string \<times> toon) list"

datatype Type = NUL | NUMBER | BOOL | STRING | ARRAY | OBJECT

fun type :: "toon \<Rightarrow> Type" where
  "type ToonNull = NUL"
| "type (ToonDouble d) = NUMBER"
| "type (ToonInt n) = NUMBER"
| "type (ToonBoolean b) = BOOL"
| "type (ToonString s) = STRING"
| "type (ToonArray xs) = ARRAY"
| "type (ToonObject m) = OBJECT"

definition is_array :: "toon \<Rightarrow> bool" where
  "is_array v = (type v = ARRAY)"

definition is_object :: "toon \<Rightarrow> bool" where
  "is_object v = (type v = OBJECT)"

text \<open>The accessors: the override of the matching class, the default of \<open>ToonValue\<close>
  (the empty statics) for every other class.\<close>

fun array_items :: "toon \<Rightarrow> toon list" where
  "array_items (ToonArray xs) = xs"
| "array_items v = []"

fun object_items :: "toon \<Rightarrow> (string \<times> toon) list" where
  "object_items (ToonObject m) = m"
| "object_items v = []"

text \<open>\<open>std::map::find\<close> on the association list, and \<open>m[key] = v\<close> (insert or assign,
  keeping the keys sorted).\<close>

definition map_find :: "(string \<times> toon) list \<Rightarrow> string \<Rightarrow> toon option" where
  "map_find m key = map_of m key"

fun map_assign :: "string \<Rightarrow> toon \<Rightarrow> (string \<times> toon) list \<Rightarrow> (string \<times> toon) list" where
  "map_assign key v [] = [(key, v)]"
| "map_assign key v ((k, w) # m) =
     (if key = k then (k, v) # m
      else if key < k then (key, v) # (k, w) # m
      else (k, w) # map_assign key v m)"

definition map_ok :: "(string \<times> toon) list \<Rightarrow> bool" where
  "map_ok m = (sorted (map fst m) \<and> distinct (map fst m))"

subsection \<open>Indexing\<close>

text \<open>\<open>ToonValue::operator[]\<close> returns a static null; \<open>ToonArray\<close> and \<open>ToonObject\<close>
  override the one that fits them. \<open>Toon::operator[]\<close> dispatches on the class.\<close>

definition ToonValue_index :: "toon" where
  "ToonValue_index = ToonNull"

definition ToonArray_index :: "toon list \<Rightarrow> nat \<Rightarrow> toon" where
  "ToonArray_index m_value k = (if k \<ge> length m_value then ToonNull else m_value ! k)"

definition ToonObject_index :: "(string \<times> toon) list \<Rightarrow> string \<Rightarrow> toon" where
  "ToonObject_index m_value key =
     (case map_find m_value key of None \<Rightarrow> ToonNull | Some v \<Rightarrow> v)"

fun Toon_index :: "toon \<Rightarrow> nat \<Rightarrow> toon" where
  "Toon_index (ToonArray xs) k = ToonArray_index xs k"
| "Toon_index v k = ToonValue_index"

fun Toon_index_key :: "toon \<Rightarrow> string \<Rightarrow> toon" where
  "Toon_index_key (ToonObject m) key = ToonObject_index m key"
| "Toon_index_key v key = ToonValue_index"

subsection \<open>Equality\<close>

text \<open>
  \<open>Toon::operator==\<close>. Values of different types are unequal; values of one type are
  compared by \<open>Value::equals\<close>, which casts the other value to the class of this one
  and compares the payloads: IEEE equality for two doubles (a NaN is unequal to
  everything, the two zeros are equal), \<open>std::vector\<close> and \<open>std::map\<close> equality for
  containers (the sizes, then the elements in order up to the first difference).
  Between a \<open>ToonInt\<close> and a \<open>ToonDouble\<close> the cast is to the wrong class and the
  comparison has no defined result: \<open>None\<close>. The shortcut for two pointers to one node
  is not part of the model, where a value is a tree; it changes the result only for a
  node that holds a NaN.
\<close>

definition isnan :: "double \<Rightarrow> bool" where
  "isnan d = (drop_bit 52 d AND 0x7FF = 0x7FF \<and> d AND 0xFFFFFFFFFFFFF \<noteq> 0)"

definition double_eq :: "double \<Rightarrow> double \<Rightarrow> bool" where
  "double_eq a b =
     (\<not> isnan a \<and> \<not> isnan b \<and>
      (a = b \<or> (a AND 0x7FFFFFFFFFFFFFFF = 0 \<and> b AND 0x7FFFFFFFFFFFFFFF = 0)))"

function (sequential)
    Toon_eq :: "toon \<Rightarrow> toon \<Rightarrow> bool option"
and equal_items :: "toon list \<Rightarrow> toon list \<Rightarrow> bool option"
and equal_entries :: "(string \<times> toon) list \<Rightarrow> (string \<times> toon) list \<Rightarrow> bool option"
where
  "Toon_eq ToonNull ToonNull = Some True"
| "Toon_eq (ToonDouble x) (ToonDouble y) = Some (double_eq x y)"
| "Toon_eq (ToonInt x) (ToonInt y) = Some (x = y)"
| "Toon_eq (ToonDouble x) (ToonInt y) = None"
| "Toon_eq (ToonInt x) (ToonDouble y) = None"
| "Toon_eq (ToonBoolean x) (ToonBoolean y) = Some (x = y)"
| "Toon_eq (ToonString x) (ToonString y) = Some (x = y)"
| "Toon_eq (ToonArray xs) (ToonArray ys) =
     (if length xs \<noteq> length ys then Some False else equal_items xs ys)"
| "Toon_eq (ToonObject m) (ToonObject m') =
     (if length m \<noteq> length m' then Some False else equal_entries m m')"
| "Toon_eq a b = Some False"
| "equal_items (x # xs) (y # ys) =
     (case Toon_eq x y of
        None \<Rightarrow> None
      | Some e \<Rightarrow> if e then equal_items xs ys else Some False)"
| "equal_items xs ys = Some True"
| "equal_entries (kv # m) (kv' # m') =
     (if fst kv \<noteq> fst kv' then Some False
      else
        (case Toon_eq (snd kv) (snd kv') of
           None \<Rightarrow> None
         | Some e \<Rightarrow> if e then equal_entries m m' else Some False))"
| "equal_entries m m' = Some True"
  by pat_completeness auto
termination
  by (relation "measure (\<lambda>x. case x of
      Inl (a, b) \<Rightarrow> size a
    | Inr (Inl (xs, ys)) \<Rightarrow> size_list size xs
    | Inr (Inr (m, m')) \<Rightarrow> size_list (size_prod (\<lambda>_. 0) size) m)")
    (auto simp: less_Suc_eq_le)

section \<open>The encoder\<close>

subsection \<open>Scalars\<close>

text \<open>\<open>std::to_string\<close> of a \<open>size_t\<close> and \<open>snprintf\<close> with \<open>%d\<close>: decimal digits, a
  minus sign for a negative \<open>int\<close>.\<close>

fun to_string :: "nat \<Rightarrow> string" where
  "to_string n =
     (if n < 10 then [char_of (48 + n)]
      else to_string (n div 10) @ [char_of (48 + n mod 10)])"

declare to_string.simps [simp del]

definition dump_null :: "string" where
  "dump_null = ''null''"

text \<open>\<open>std::isfinite\<close>: the exponent field is not all ones. The \<open>%.17g\<close> rendering of
  \<open>snprintf\<close> belongs to the C library; the encoder takes it as the parameter \<open>g17\<close>.\<close>

definition isfinite :: "double \<Rightarrow> bool" where
  "isfinite d = (drop_bit 52 d AND 0x7FF \<noteq> 0x7FF)"

definition dump_double :: "(double \<Rightarrow> string) \<Rightarrow> double \<Rightarrow> string" where
  "dump_double g17 d = (if isfinite d then g17 d else ''null'')"

definition dump_int :: "32 word \<Rightarrow> string" where
  "dump_int n = (if sint n < 0 then CHR ''-'' # to_string (nat (- sint n)) else to_string (nat (sint n)))"

definition dump_bool :: "bool \<Rightarrow> string" where
  "dump_bool b = (if b then ''true'' else ''false'')"

subsection \<open>Character classes and \<open>strtod\<close>\<close>

text \<open>The \<open>cctype\<close> predicates in the "C" locale, on bytes.\<close>

definition isdigit :: "char \<Rightarrow> bool" where
  "isdigit c = (CHR ''0'' \<le> c \<and> c \<le> CHR ''9'')"

definition isxdigit :: "char \<Rightarrow> bool" where
  "isxdigit c = (isdigit c \<or> (CHR ''a'' \<le> c \<and> c \<le> CHR ''f'') \<or> (CHR ''A'' \<le> c \<and> c \<le> CHR ''F''))"

definition isalnum :: "char \<Rightarrow> bool" where
  "isalnum c = (isdigit c \<or> (CHR ''a'' \<le> c \<and> c \<le> CHR ''z'') \<or> (CHR ''A'' \<le> c \<and> c \<le> CHR ''Z''))"

definition isspace :: "char \<Rightarrow> bool" where
  "isspace c = (c = CHR '' '' \<or> (CHR 0x09 \<le> c \<and> c \<le> CHR 0x0D))"

definition tolower :: "char \<Rightarrow> char" where
  "tolower c = (if CHR ''A'' \<le> c \<and> c \<le> CHR ''Z'' then char_of (of_char c + (32::nat)) else c)"

text \<open>\<open>c_str()\<close>: what a C function reads of a \<open>std::string\<close>, the bytes before the
  first NUL.\<close>

definition c_str :: "string \<Rightarrow> string" where
  "c_str s = takeWhile (\<lambda>c. c \<noteq> CHR 0x00) s"

text \<open>
  \<open>strtod\<close> belongs to the C library. The encoder only looks at where the conversion
  ends (\<open>*end == '\0'\<close>), so \<open>strtod_end\<close> gives the number of bytes \<open>strtod\<close> consumes,
  after ISO C 7.22.1.3 in the "C" locale: white space, an optional sign, then the longest
  of a decimal floating constant, a hexadecimal one, \<open>INF\<close>/\<open>INFINITY\<close> or
  \<open>NAN\<close>/\<open>NAN(n-char-sequence)\<close>, letters in either case; nothing is consumed when no
  conversion can be made. The value it returns is the parameter \<open>strtod_value\<close> of the
  decoder.
\<close>

definition exp_len :: "char \<Rightarrow> string \<Rightarrow> nat" where
  "exp_len e r =
     (case r of [] \<Rightarrow> 0
      | c # r' \<Rightarrow>
         if tolower c = e then
           (let sg = (case r' of [] \<Rightarrow> 0 | d # _ \<Rightarrow> if d = CHR ''+'' \<or> d = CHR ''-'' then 1 else 0);
                ds = length (takeWhile isdigit (drop sg r'))
            in if ds = 0 then 0 else 1 + sg + ds)
         else 0)"

definition mantissa_len :: "(char \<Rightarrow> bool) \<Rightarrow> string \<Rightarrow> nat" where
  "mantissa_len dig b =
     (let ip = length (takeWhile dig b);
          r = drop ip b;
          fp = (case r of [] \<Rightarrow> 0 | c # r' \<Rightarrow> if c = CHR ''.'' then length (takeWhile dig r') else 0);
          dot = (case r of [] \<Rightarrow> 0 | c # r' \<Rightarrow> if c = CHR ''.'' then 1 else 0)
      in if ip + fp = 0 then 0 else ip + dot + fp)"

definition dec_len :: "string \<Rightarrow> nat" where
  "dec_len b =
     (let m = mantissa_len isdigit b in if m = 0 then 0 else m + exp_len CHR ''e'' (drop m b))"

definition hex_len :: "string \<Rightarrow> nat" where
  "hex_len b =
     (let m = mantissa_len isxdigit b in if m = 0 then 0 else m + exp_len CHR ''p'' (drop m b))"

definition nan_len :: "string \<Rightarrow> nat" where
  "nan_len r =
     (case r of [] \<Rightarrow> 0
      | c # r' \<Rightarrow>
         if c = CHR ''('' then
           (let n = length (takeWhile (\<lambda>c. isalnum c \<or> c = CHR ''_'') r')
            in if take 1 (drop n r') = '')'' then n + 2 else 0)
         else 0)"

definition strtod_end :: "string \<Rightarrow> nat" where
  "strtod_end s =
     (let ws = length (takeWhile isspace s);
          r = drop ws s;
          sg = (case r of [] \<Rightarrow> 0 | c # _ \<Rightarrow> if c = CHR ''+'' \<or> c = CHR ''-'' then 1 else 0);
          b = drop sg r;
          m = (if map tolower (take 8 b) = ''infinity'' then 8
               else if map tolower (take 3 b) = ''inf'' then 3
               else if map tolower (take 3 b) = ''nan'' then 3 + nan_len (drop 3 b)
               else if map tolower (take 2 b) = ''0x'' \<and> hex_len (drop 2 b) \<noteq> 0
                 then 2 + hex_len (drop 2 b)
               else dec_len b)
      in if m = 0 then 0 else ws + sg + m)"

subsection \<open>Strings\<close>

text \<open>\<open>needs_quoting\<close>, with its loop over the bytes of the value. \<open>value[0]\<close> is read
  only when the value is not empty.\<close>

definition special :: "string" where
  "special = [CHR '','', CHR '':'', CHR 0x0A, CHR ''['', CHR '']'', CHR ''{'', CHR ''}'', CHR ''#'']"

fun has_special :: "string \<Rightarrow> bool" where
  "has_special [] = False"
| "has_special (c # cs) = (if c \<in> set special then True else has_special cs)"

definition needs_quoting :: "string \<Rightarrow> bool" where
  "needs_quoting val =
     (if val = [] then True
      else if val = ''null'' \<or> val = ''true'' \<or> val = ''false'' then True
      else if (isdigit (hd val) \<or> hd val = CHR ''-'') \<and>
              strtod_end (c_str val) = length (c_str val) then True
      else has_special val)"

text \<open>\<open>snprintf\<close> with \<open>\u%04x\<close>: four lower-case hexadecimal digits.\<close>

definition hex_digit :: "nat \<Rightarrow> char" where
  "hex_digit n = (if n < 10 then char_of (48 + n) else char_of (87 + n))"

definition hex4 :: "nat \<Rightarrow> string" where
  "hex4 n = [hex_digit (n div 4096 mod 16), hex_digit (n div 256 mod 16),
             hex_digit (n div 16 mod 16), hex_digit (n mod 16)]"

definition escape_char :: "char \<Rightarrow> string" where
  "escape_char ch =
     (if ch = CHR 0x5C then [CHR 0x5C, CHR 0x5C]
      else if ch = CHR 0x22 then [CHR 0x5C, CHR 0x22]
      else if ch = CHR 0x08 then [CHR 0x5C, CHR ''b'']
      else if ch = CHR 0x0C then [CHR 0x5C, CHR ''f'']
      else if ch = CHR 0x0A then [CHR 0x5C, CHR ''n'']
      else if ch = CHR 0x0D then [CHR 0x5C, CHR ''r'']
      else if ch = CHR 0x09 then [CHR 0x5C, CHR ''t'']
      else if (of_char ch :: nat) \<le> 0x1F then [CHR 0x5C, CHR ''u''] @ hex4 (of_char ch)
      else [ch])"

fun escape_loop :: "string \<Rightarrow> string" where
  "escape_loop [] = []"
| "escape_loop (ch # cs) = escape_char ch @ escape_loop cs"

definition dump_string :: "string \<Rightarrow> string" where
  "dump_string val =
     (if \<not> needs_quoting val then val
      else [CHR 0x22] @ escape_loop val @ [CHR 0x22])"

definition indent :: "int \<Rightarrow> string" where
  "indent level = replicate (2 * nat level) CHR '' ''"

subsection \<open>Arrays and objects\<close>

text \<open>
  The check for the tabular form in \<open>dump(const Toon::array &)\<close>: the keys of the first
  element, then for each later element the loop that clears \<open>all_objects\<close> and breaks
  when the element is no object, has another number of entries, or misses a key.
\<close>

fun check_keys :: "(string \<times> toon) list \<Rightarrow> string list \<Rightarrow> bool" where
  "check_keys obj [] = True"
| "check_keys obj (k # ks) = (if map_find obj k = None then False else check_keys obj ks)"

fun check_rows :: "string list \<Rightarrow> toon list \<Rightarrow> bool" where
  "check_rows keys [] = True"
| "check_rows keys (v # vs) =
     (if \<not> is_object v \<or> length (object_items v) \<noteq> length keys then False
      else if \<not> check_keys (object_items v) keys then False
      else check_rows keys vs)"

definition tabular_keys :: "toon list \<Rightarrow> string list" where
  "tabular_keys values = (if is_object (hd values) then map fst (object_items (hd values)) else [])"

definition all_objects :: "toon list \<Rightarrow> bool" where
  "all_objects values =
     (if is_object (hd values) then check_rows (tabular_keys values) (tl values) else False)"

text \<open>The header loop: the keys, a comma and a space between two of them.\<close>

fun dump_keys :: "string list \<Rightarrow> string" where
  "dump_keys [] = []"
| "dump_keys (k # ks) = k @ (if ks \<noteq> [] then '', '' else []) @ dump_keys ks"

lemma map_find_size:
  "map_find obj k = Some c \<Longrightarrow> size c < size_list (size_prod (\<lambda>_. 0) size) obj"
  unfolding map_find_def by (induction obj) (auto split: if_splits)

lemma object_items_size:
  "size_list (size_prod (\<lambda>_. 0) size) (object_items v) \<le> size v + n"
  by (cases v) auto

text \<open>
  \<open>Toon::dump\<close> and the loops of the two container overloads. The C++ appends to the
  buffer \<open>out\<close>; each function here returns the text it appends. A loop over an index
  becomes a recursion over the rest of the list, and the test \<open>i < size() - 1\<close> of the
  separators is "the rest is not empty". \<open>obj.at(key)\<close> throws \<open>std::out_of_range\<close> for
  a missing key: the result is \<open>None\<close> then.
  \<^item> \<open>dump_elems\<close>: the loop of the \<open>[N]:\<close> form;
  \<^item> \<open>dump_rows\<close>, \<open>dump_cells\<close>: the loops over the rows and the columns of the tabular form;
  \<^item> \<open>dump_entries\<close>: the loop of \<open>dump(const Toon::object &)\<close>, with its flag \<open>first\<close>.
\<close>

function
    dump :: "(double \<Rightarrow> string) \<Rightarrow> toon \<Rightarrow> int \<Rightarrow> string option"
and dump_elems :: "(double \<Rightarrow> string) \<Rightarrow> toon list \<Rightarrow> int \<Rightarrow> string option"
and dump_rows :: "(double \<Rightarrow> string) \<Rightarrow> string list \<Rightarrow> toon list \<Rightarrow> int \<Rightarrow> string option"
and dump_cells :: "(double \<Rightarrow> string) \<Rightarrow> (string \<times> toon) list \<Rightarrow> string list \<Rightarrow> int \<Rightarrow> string option"
and dump_entries :: "(double \<Rightarrow> string) \<Rightarrow> bool \<Rightarrow> (string \<times> toon) list \<Rightarrow> int \<Rightarrow> string option"
where
  "dump g17 ToonNull level = Some dump_null"
| "dump g17 (ToonDouble d) level = Some (dump_double g17 d)"
| "dump g17 (ToonInt n) level = Some (dump_int n)"
| "dump g17 (ToonBoolean b) level = Some (dump_bool b)"
| "dump g17 (ToonString s) level = Some (dump_string s)"
| "dump g17 (ToonArray values) level =
     (if values = [] then Some ''[0]:''
      else if all_objects values \<and> tabular_keys values \<noteq> [] then
        (case dump_rows g17 (tabular_keys values) values level of
           None \<Rightarrow> None
         | Some rows \<Rightarrow> Some (''[{'' @ dump_keys (tabular_keys values) @ ''}]:'' @ [CHR 0x0A] @ rows))
      else
        (case dump_elems g17 values level of
           None \<Rightarrow> None
         | Some elems \<Rightarrow> Some (''['' @ to_string (length values) @ '']: '' @ elems)))"
| "dump g17 (ToonObject m) level = dump_entries g17 True m level"
| "dump_elems g17 [] level = Some []"
| "dump_elems g17 (v # vs) level =
     (case dump g17 v level of
        None \<Rightarrow> None
      | Some t \<Rightarrow>
         (case dump_elems g17 vs level of
            None \<Rightarrow> None
          | Some r \<Rightarrow> Some (t @ (if vs \<noteq> [] then '', '' else []) @ r)))"
| "dump_rows g17 keys [] level = Some []"
| "dump_rows g17 keys (v # vs) level =
     (case dump_cells g17 (object_items v) keys level of
        None \<Rightarrow> None
      | Some t \<Rightarrow>
         (case dump_rows g17 keys vs level of
            None \<Rightarrow> None
          | Some r \<Rightarrow> Some (indent (level + 1) @ t @ (if vs \<noteq> [] then [CHR 0x0A] else []) @ r)))"
| "dump_cells g17 obj [] level = Some []"
| "dump_cells g17 obj (k # ks) level =
     (case map_find obj k of
        None \<Rightarrow> None
      | Some c \<Rightarrow>
         (case dump g17 c (level + 1) of
            None \<Rightarrow> None
          | Some t \<Rightarrow>
             (case dump_cells g17 obj ks level of
                None \<Rightarrow> None
              | Some r \<Rightarrow> Some (t @ (if ks \<noteq> [] then '', '' else []) @ r))))"
| "dump_entries g17 first [] level = Some []"
| "dump_entries g17 first (kv # kvs) level =
     (case dump g17 (snd kv)
             (if is_object (snd kv) \<or> is_array (snd kv) then level + 1 else level) of
        None \<Rightarrow> None
      | Some t \<Rightarrow>
         (case dump_entries g17 False kvs level of
            None \<Rightarrow> None
          | Some r \<Rightarrow>
             Some ((if \<not> first then [CHR 0x0A] @ indent level else []) @
                   fst kv @ '': '' @
                   (if is_object (snd kv) \<or> is_array (snd kv) then
                      (if is_object (snd kv) then [CHR 0x0A] else []) @
                      (if is_object (snd kv) then indent (level + 1) else [])
                    else []) @
                   t @ r)))"
  by pat_completeness auto
termination
  apply (relation "inv_image (less_than <*lex*> less_than) (\<lambda>x. case x of
      Inl (Inl (g, v, l)) \<Rightarrow> (size v, 0)
    | Inl (Inr (g, vs, l)) \<Rightarrow> (size_list size vs, 0)
    | Inr (Inl (g, keys, vs, l)) \<Rightarrow> (size_list size vs, 0)
    | Inr (Inr (Inl (g, obj, ks, l))) \<Rightarrow> (size_list (size_prod (\<lambda>_. 0) size) obj, length ks)
    | Inr (Inr (Inr (g, first, kvs, l))) \<Rightarrow> (size_list (size_prod (\<lambda>_. 0) size) kvs, 0))")
                      apply (auto simp: map_find_size object_items_size less_Suc_eq_le)
  done

section \<open>The decoder\<close>

text \<open>
  \<open>ToonParser\<close> keeps the offset \<open>i\<close>, the sticky flag \<open>failed\<close> and a reference to the
  caller's error string \<open>err\<close>; the input \<open>str\<close> is constant and is passed beside the
  state. Every method returns the state it leaves.
\<close>

record ToonParser =
  i :: nat
  err :: string
  failed :: bool
  failures :: "string list"

text \<open>
  \<open>failures\<close> is not a member of the C++ class. It is a history variable: the messages
  of all the calls of \<open>fail\<close> so far, the first call first. \<open>fail\<close> appends its message
  to it, nothing else writes it and nothing reads it, so that it has no influence on
  what the methods return; it is there for the statements that speak of "the first
  failure" of a run.
\<close>

definition fail :: "ToonParser \<Rightarrow> string \<Rightarrow> toon \<times> ToonParser" where
  "fail s msg =
     (ToonNull, s\<lparr>err := (if \<not> failed s then msg else err s), failed := True,
                  failures := failures s @ [msg]\<rparr>)"

text \<open>\<open>str[k]\<close> for \<open>k \<le> str.size()\<close>: the byte, and NUL at \<open>k = str.size()\<close>.\<close>

definition at :: "string \<Rightarrow> nat \<Rightarrow> char" where
  "at str k = (if k < length str then str ! k else CHR 0x00)"

definition substr :: "string \<Rightarrow> nat \<Rightarrow> nat \<Rightarrow> string" where
  "substr str pos len = take len (drop pos str)"

text \<open>The loop \<open>while (i < str.size() && P(str[i])) i++\<close>, which the parser uses to skip
  and to collect bytes: \<open>scan_while\<close> gives the offset where it stops.\<close>

function scan_while :: "(char \<Rightarrow> bool) \<Rightarrow> string \<Rightarrow> nat \<Rightarrow> nat" where
  "scan_while P str k = (if k < length str \<and> P (str ! k) then scan_while P str (k + 1) else k)"
  by pat_completeness auto
termination
  by (relation "measure (\<lambda>(P, str, k). length str - k)") auto

declare scan_while.simps [simp del]

lemma scan_while_ge: "k \<le> scan_while P str k"
  by (induction P str k rule: scan_while.induct) (subst scan_while.simps, auto)

lemma scan_while_gt: "k < length str \<Longrightarrow> P (str ! k) \<Longrightarrow> k < scan_while P str k"
  using scan_while_ge [of "k + 1" P str] by (subst scan_while.simps) auto

lemma scan_while_le: "k \<le> length str \<Longrightarrow> scan_while P str k \<le> length str"
  by (induction P str k rule: scan_while.induct) (subst scan_while.simps, auto)

definition is_inline_space :: "char \<Rightarrow> bool" where
  "is_inline_space c = (c = CHR '' '' \<or> c = CHR 0x0D \<or> c = CHR 0x09)"

definition skip_whitespace :: "string \<Rightarrow> nat \<Rightarrow> nat" where
  "skip_whitespace str k = scan_while is_inline_space str k"

definition consume_whitespace :: "string \<Rightarrow> ToonParser \<Rightarrow> ToonParser" where
  "consume_whitespace str s = s\<lparr>i := skip_whitespace str (i s)\<rparr>"

function skip_garbage :: "string \<Rightarrow> nat \<Rightarrow> nat" where
  "skip_garbage str k =
     (let k1 = skip_whitespace str k in
      if k1 < length str \<and> str ! k1 = CHR ''#'' then
        skip_garbage str (scan_while (\<lambda>c. c \<noteq> CHR 0x0A) str k1)
      else if k1 < length str \<and> str ! k1 = CHR 0x0A then skip_garbage str (k1 + 1)
      else k1)"
  by pat_completeness auto
termination
proof (relation "measure (\<lambda>(str, k). length str - k)", goal_cases)
  case 1
  show ?case by simp
next
  case (2 str k k1)
  then have "k1 < scan_while (\<lambda>c. c \<noteq> CHR 0x0A) str k1"
    by (intro scan_while_gt) auto
  moreover have "k \<le> k1"
    using 2 by (simp add: skip_whitespace_def scan_while_ge)
  ultimately show ?case using 2 by auto
next
  case (3 str k k1)
  moreover have "k \<le> k1"
    using 3 by (simp add: skip_whitespace_def scan_while_ge)
  ultimately show ?case by auto
qed

declare skip_garbage.simps [simp del]

definition consume_garbage :: "string \<Rightarrow> ToonParser \<Rightarrow> ToonParser" where
  "consume_garbage str s = s\<lparr>i := skip_garbage str (i s)\<rparr>"

text \<open>\<open>get_indent\<close>: back to the start of the line, then forward over spaces and tabs.\<close>

fun line_start :: "string \<Rightarrow> nat \<Rightarrow> nat" where
  "line_start str 0 = 0"
| "line_start str (Suc k) = (if at str k \<noteq> CHR 0x0A then line_start str k else Suc k)"

function indent_count :: "string \<Rightarrow> nat \<Rightarrow> int \<Rightarrow> int" where
  "indent_count str start count =
     (if start < length str \<and> (str ! start = CHR '' '' \<or> str ! start = CHR 0x09)
      then indent_count str (start + 1) (count + (if str ! start = CHR 0x09 then 8 else 1))
      else count)"
  by pat_completeness auto
termination
  by (relation "measure (\<lambda>(str, start, count). length str - start)") auto

declare indent_count.simps [simp del]

definition get_indent :: "string \<Rightarrow> ToonParser \<Rightarrow> int" where
  "get_indent str s = indent_count str (line_start str (i s)) 0"

subsection \<open>Quoted strings\<close>

text \<open>\<open>helper_toon::parse_unicode_codepoint\<close> reads four bytes from offset \<open>k\<close> on and
  returns the value, the offset it leaves and the error text (empty when there is none).\<close>

fun unicode_loop :: "string \<Rightarrow> nat \<Rightarrow> nat \<Rightarrow> 32 word \<Rightarrow> 32 word \<times> nat \<times> string" where
  "unicode_loop str k 0 val = (val, k, [])"
| "unicode_loop str k (Suc j) val =
     (let c = str ! k; val' = push_bit 4 val in
      if CHR ''0'' \<le> c \<and> c \<le> CHR ''9'' then
        unicode_loop str (k + 1) j (val' + of_nat (of_char c - of_char CHR ''0''))
      else if CHR ''a'' \<le> c \<and> c \<le> CHR ''f'' then
        unicode_loop str (k + 1) j (val' + of_nat (of_char c - of_char CHR ''a'' + 10))
      else if CHR ''A'' \<le> c \<and> c \<le> CHR ''F'' then
        unicode_loop str (k + 1) j (val' + of_nat (of_char c - of_char CHR ''A'' + 10))
      else (0, k + 1, ''invalid unicode escape''))"

definition parse_unicode_codepoint :: "string \<Rightarrow> nat \<Rightarrow> 32 word \<times> nat \<times> string" where
  "parse_unicode_codepoint str k =
     (if k + 4 \<ge> length str then (0, k, ''unfinished unicode escape'')
      else unicode_loop str k 4 0)"

definition to_char :: "32 word \<Rightarrow> char" where
  "to_char w = char_of (unat w)"

definition encode_utf8 :: "32 word \<Rightarrow> string" where
  "encode_utf8 cp0 =
     (let cp1 = (if cp0 > 0x10ffff then 0xfffd else cp0);
          cp = (if (cp1 \<ge> 0xd800 \<and> cp1 \<le> 0xdfff) \<or> (cp1 \<ge> 0xfdd0 \<and> cp1 \<le> 0xfdef) \<or>
                   cp1 AND 0xfffe = 0xfffe
                then 0xfffd else cp1)
      in if cp \<le> 0x7f then [to_char cp]
         else if cp \<le> 0x7ff then
           [to_char (0xc0 OR (drop_bit 6 cp AND 0x1f)), to_char (0x80 OR (cp AND 0x3f))]
         else if cp \<le> 0xffff then
           [to_char (0xe0 OR (drop_bit 12 cp AND 0x0f)),
            to_char (0x80 OR (drop_bit 6 cp AND 0x3f)),
            to_char (0x80 OR (cp AND 0x3f))]
         else
           [to_char (0xf0 OR (drop_bit 18 cp AND 0x07)),
            to_char (0x80 OR (drop_bit 12 cp AND 0x3f)),
            to_char (0x80 OR (drop_bit 6 cp AND 0x3f)),
            to_char (0x80 OR (cp AND 0x3f))])"

text \<open>The block \<open>if (str[i] == 'u') { ... }\<close> of \<open>parse_quoted_string\<close>: \<open>Inl\<close> is the
  early \<open>return fail(...)\<close>, \<open>Inr\<close> the state and the output the code goes on with.\<close>

definition unicode_escape ::
  "string \<Rightarrow> ToonParser \<Rightarrow> string \<Rightarrow> (toon \<times> ToonParser) + (ToonParser \<times> string)" where
  "unicode_escape str s out =
     (if at str (i s) = CHR ''u'' then
        (case parse_unicode_codepoint str (i s) of
           (cp, k, unicode_err) \<Rightarrow>
             if unicode_err \<noteq> [] then Inl (fail (s\<lparr>i := k\<rparr>) unicode_err)
             else Inr (s\<lparr>i := k\<rparr>, out @ encode_utf8 cp))
      else Inr (s, out))"

lemma unicode_loop_ge: "k \<le> fst (snd (unicode_loop str k j val))"
proof (induction j arbitrary: k val)
  case 0
  show ?case by simp
next
  case (Suc j)
  show ?case
    using Suc [of "k + 1"] by (auto simp: Let_def intro: Suc_leD)
qed

lemma unicode_escape_ge: "unicode_escape str s out = Inr (s', out') \<Longrightarrow> i s \<le> i s'"
  using unicode_loop_ge [of "i s" str 4 0]
  by (auto simp: unicode_escape_def parse_unicode_codepoint_def split: if_splits prod.splits)

function parse_quoted_string_loop :: "string \<Rightarrow> ToonParser \<Rightarrow> string \<Rightarrow> toon \<times> ToonParser" where
  "parse_quoted_string_loop str s out =
     (if i s < length str \<and> str ! i s \<noteq> CHR 0x22 then
        (if str ! i s = CHR 0x5C then
           (case unicode_escape str (s\<lparr>i := i s + 1\<rparr>) out of
              Inl r \<Rightarrow> r
            | Inr (s2, out2) \<Rightarrow>
                if i s2 = length str then fail s2 ''unfinished escape''
                else if str ! i s2 = CHR ''n'' then
                  parse_quoted_string_loop str (s2\<lparr>i := i s2 + 1\<rparr>) (out2 @ [CHR 0x0A])
                else if str ! i s2 = CHR ''r'' then
                  parse_quoted_string_loop str (s2\<lparr>i := i s2 + 1\<rparr>) (out2 @ [CHR 0x0D])
                else if str ! i s2 = CHR ''t'' then
                  parse_quoted_string_loop str (s2\<lparr>i := i s2 + 1\<rparr>) (out2 @ [CHR 0x09])
                else if str ! i s2 = CHR 0x22 \<or> str ! i s2 = CHR 0x5C then
                  parse_quoted_string_loop str (s2\<lparr>i := i s2 + 1\<rparr>) (out2 @ [str ! i s2])
                else fail (s2\<lparr>i := i s2 + 1\<rparr>) ''invalid escape'')
         else parse_quoted_string_loop str (s\<lparr>i := i s + 1\<rparr>) (out @ [str ! i s]))
      else if i s = length str then fail s ''unfinished string''
      else (ToonString out, s\<lparr>i := i s + 1\<rparr>))"
  by pat_completeness auto
termination
  by (relation "measure (\<lambda>(str, s, out). length str - i s)")
    (auto dest!: unicode_escape_ge)

declare parse_quoted_string_loop.simps [simp del]

definition parse_quoted_string :: "string \<Rightarrow> ToonParser \<Rightarrow> toon \<times> ToonParser" where
  "parse_quoted_string str s = parse_quoted_string_loop str (s\<lparr>i := i s + 1\<rparr>) []"

subsection \<open>Unquoted strings and numbers\<close>

text \<open>\<open>find_last_not_of\<close> and \<open>erase\<close>: the trailing bytes of the set are dropped, unless
  the text holds no other byte (\<open>npos\<close>), when it is left as it is.\<close>

definition trim_trailing :: "string \<Rightarrow> string \<Rightarrow> string" where
  "trim_trailing ws out =
     (if list_all (\<lambda>c. c \<in> set ws) out then out
      else rev (dropWhile (\<lambda>c. c \<in> set ws) (rev out)))"

definition parse_unquoted_string :: "string \<Rightarrow> ToonParser \<Rightarrow> toon \<times> ToonParser" where
  "parse_unquoted_string str s =
     (let k = scan_while (\<lambda>c. c \<notin> set special) str (i s);
          out = substr str (i s) (k - i s)
      in (ToonString (trim_trailing [CHR '' '', CHR 0x09, CHR 0x0D] out), s\<lparr>i := k\<rparr>))"

text \<open>\<open>parse_number\<close> hands the bytes it collects to \<open>strtod\<close> and returns whatever
  value comes back; \<open>strtod_value\<close> is that value.\<close>

definition parse_number :: "(string \<Rightarrow> double) \<Rightarrow> string \<Rightarrow> ToonParser \<Rightarrow> toon \<times> ToonParser" where
  "parse_number strtod_value str s =
     (let k = scan_while (\<lambda>c. isdigit c \<or> c = CHR ''.'' \<or> c = CHR ''-'' \<or> c = CHR ''e'' \<or> c = CHR ''E'')
                str (i s);
          n = substr str (i s) (k - i s)
      in (ToonDouble (strtod_value (c_str n)), s\<lparr>i := k\<rparr>))"

text \<open>\<open>str.compare(i, len, lit) == 0\<close>.\<close>

definition compare_at :: "string \<Rightarrow> nat \<Rightarrow> nat \<Rightarrow> string \<Rightarrow> bool" where
  "compare_at str k len lit = (substr str k len = lit)"

subsection \<open>The array header\<close>

text \<open>The keys of a tabular header: spaces are trimmed on both sides, a key of spaces
  only is not kept.\<close>

definition trim_key :: "string \<Rightarrow> string" where
  "trim_key key = rev (dropWhile (\<lambda>c. c = CHR '' '') (rev (dropWhile (\<lambda>c. c = CHR '' '') key)))"

function header_keys :: "string \<Rightarrow> nat \<Rightarrow> string list \<Rightarrow> nat \<times> string list" where
  "header_keys str k keys =
     (if k < length str \<and> str ! k \<noteq> CHR ''}'' then
        (let k1 = skip_whitespace str k;
             k2 = scan_while (\<lambda>c. c \<noteq> CHR '','' \<and> c \<noteq> CHR ''}'') str k1;
             key = substr str k1 (k2 - k1);
             keys' = (if trim_key key \<noteq> [] then keys @ [trim_key key] else keys);
             k3 = (if k2 < length str \<and> str ! k2 = CHR '','' then k2 + 1 else k2)
         in header_keys str k3 keys')
      else (k, keys))"
  by pat_completeness auto
termination
proof (relation "measure (\<lambda>(str, k, keys). length str - k)", goal_cases)
  case 1
  show ?case by simp
next
  case (2 str k keys k1 k2 key keys' k3)
  have a: "k \<le> k1" using 2 by (simp add: skip_whitespace_def scan_while_ge)
  have b: "k1 \<le> k2" using 2 by (simp add: scan_while_ge)
  have "k < k3"
  proof (cases "k < k1")
    case True
    with b 2 show ?thesis by auto
  next
    case False
    with a have e: "k1 = k" by simp
    show ?thesis
    proof (cases "str ! k = CHR '',''")
      case True
      then have "scan_while (\<lambda>c. c \<noteq> CHR '','' \<and> c \<noteq> CHR ''}'') str k = k"
        by (subst scan_while.simps) simp
      then have "k2 = k"
        using 2 e by simp
      with True 2 show ?thesis by simp
    next
      case False
      then have "k < k2"
        using 2 e scan_while_gt [of k str "\<lambda>c. c \<noteq> CHR '','' \<and> c \<noteq> CHR ''}''"] by simp
      with 2 show ?thesis by auto
    qed
  qed
  with 2 show ?case by auto
qed

declare header_keys.simps [simp del]

text \<open>\<open>std::stoi\<close> of a run of digits: \<open>None\<close> is the \<open>std::out_of_range\<close> it throws when
  the number does not fit an \<open>int\<close>.\<close>

definition stoi :: "string \<Rightarrow> int option" where
  "stoi n =
     (let v = foldl (\<lambda>a c. 10 * a + (of_char c - 48)) (0::int) n
      in if v > 2147483647 then None else Some v)"

datatype exn = out_of_range

text \<open>The header as a whole: whether it is tabular, the keys, the count (\<open>-1\<close> when there
  is none) and the offset behind the closing bracket and the optional colon.\<close>

definition skip_to_body :: "string \<Rightarrow> nat \<Rightarrow> nat" where
  "skip_to_body str k =
     (let k1 = scan_while (\<lambda>c. c \<noteq> CHR '']'') str k;
          k2 = (if k1 < length str then k1 + 1 else k1)
      in if k2 < length str \<and> str ! k2 = CHR '':'' then k2 + 1 else k2)"

definition parse_array_header :: "string \<Rightarrow> nat \<Rightarrow> exn + (bool \<times> string list \<times> int \<times> nat)" where
  "parse_array_header str k0 =
     (let k = k0 + 1 in
      if k < length str \<and> str ! k = CHR ''{'' then
        (case header_keys str (k + 1) [] of
           (k1, keys) \<Rightarrow>
             Inr (True, keys, -1, skip_to_body str (if k1 < length str then k1 + 1 else k1)))
      else
        (let k1 = scan_while isdigit str k; n = substr str k (k1 - k) in
         if n \<noteq> [] then
           (case stoi n of
              None \<Rightarrow> Inl out_of_range
            | Some count \<Rightarrow> Inr (False, [], count, skip_to_body str k1))
         else Inr (False, [], -1, skip_to_body str k1)))"

subsection \<open>Values, arrays and objects\<close>

text \<open>
  The recursive methods. The recursion of the C++ is not bounded by the text left to
  read (a tabular row can be accepted without a byte being consumed), so the methods
  take fuel, one unit per call and per loop iteration: \<open>None\<close> is "no result within
  the fuel", \<open>Some (Inl e)\<close> the exception \<open>e\<close> leaving \<open>Toon::parse\<close>, and
  \<open>Some (Inr (v, s))\<close> the value returned and the state left.

  Each body is written once, with the methods it calls as its first arguments (they
  carry the names of the methods); \<open>parsers_at\<close> then ties the bodies together, the
  methods with fuel \<open>n + 1\<close> calling those with fuel \<open>n\<close>.
  \<^item> \<open>tabular_loop\<close> is the \<open>while\<close> loop over the rows of a tabular body and \<open>row_loop\<close> its
    \<open>for\<close> loop over the keys still to fill; a row ends as \<open>RowDone\<close>, as \<open>RowFailed\<close>
    (\<open>row_failed\<close>) or, on a hard failure of \<open>parse_value\<close>, as \<open>RowAbort\<close>, the
    \<open>return Toon()\<close>;
  \<^item> \<open>standard_loop\<close> is the \<open>for\<close> loop of the \<open>[N]:\<close> body, with its counter \<open>k\<close>;
  \<^item> \<open>object_loop\<close> is the \<open>while\<close> loop of \<open>parse_object\<close>.
\<close>

datatype row = RowDone "(string \<times> toon) list" | RowFailed | RowAbort

type_synonym 'a result = "(exn + 'a \<times> ToonParser) option"

definition parse_value_body ::
  "(int \<Rightarrow> ToonParser \<Rightarrow> toon result) \<Rightarrow> (string \<Rightarrow> double) \<Rightarrow> string \<Rightarrow> ToonParser \<Rightarrow> toon result" where
  "parse_value_body parse_array sv str s0 =
     (let s = consume_whitespace str s0 in
      if i s = length str then Some (Inr (fail s ''unexpected end of input''))
      else if str ! i s = CHR 0x22 then Some (Inr (parse_quoted_string str s))
      else if str ! i s = CHR ''['' then parse_array (-1) s
      else if compare_at str (i s) 4 ''null'' then Some (Inr (ToonNull, s\<lparr>i := i s + 4\<rparr>))
      else if compare_at str (i s) 4 ''true'' then Some (Inr (ToonBoolean True, s\<lparr>i := i s + 4\<rparr>))
      else if compare_at str (i s) 5 ''false'' then Some (Inr (ToonBoolean False, s\<lparr>i := i s + 5\<rparr>))
      else if isdigit (str ! i s) \<or> str ! i s = CHR ''-'' then Some (Inr (parse_number sv str s))
      else Some (Inr (parse_unquoted_string str s)))"

definition parse_array_body ::
  "(int \<Rightarrow> string list \<Rightarrow> toon list \<Rightarrow> ToonParser \<Rightarrow> toon result) \<Rightarrow>
   (int \<Rightarrow> int \<Rightarrow> toon list \<Rightarrow> ToonParser \<Rightarrow> toon result) \<Rightarrow>
   string \<Rightarrow> int \<Rightarrow> ToonParser \<Rightarrow> toon result" where
  "parse_array_body tabular_loop standard_loop str parent_indent s =
     (case parse_array_header str (i s) of
        Inl e \<Rightarrow> Some (Inl e)
      | Inr (tabular, keys, count, k) \<Rightarrow>
          if tabular then tabular_loop parent_indent keys [] (s\<lparr>i := k\<rparr>)
          else standard_loop count 0 [] (s\<lparr>i := k\<rparr>))"

definition tabular_loop_body ::
  "(string list \<Rightarrow> (string \<times> toon) list \<Rightarrow> ToonParser \<Rightarrow> row result) \<Rightarrow>
   (int \<Rightarrow> string list \<Rightarrow> toon list \<Rightarrow> ToonParser \<Rightarrow> toon result) \<Rightarrow>
   string \<Rightarrow> int \<Rightarrow> string list \<Rightarrow> toon list \<Rightarrow> ToonParser \<Rightarrow> toon result" where
  "tabular_loop_body row_loop tabular_loop str parent_indent keys arr s =
     (if i s < length str then
        (let s1 = consume_garbage str s in
         if i s1 = length str then Some (Inr (ToonArray arr, s1))
         else if parent_indent \<noteq> -1 \<and> get_indent str s1 \<le> parent_indent then
           Some (Inr (ToonArray arr, s1))
         else
           (case row_loop keys [] s1 of
              None \<Rightarrow> None
            | Some (Inl e) \<Rightarrow> Some (Inl e)
            | Some (Inr (r, s2)) \<Rightarrow>
                (case r of
                   RowAbort \<Rightarrow> Some (Inr (ToonNull, s2))
                 | RowFailed \<Rightarrow> Some (Inr (ToonArray arr, s2))
                 | RowDone obj \<Rightarrow> tabular_loop parent_indent keys (arr @ [ToonObject obj]) s2)))
      else Some (Inr (ToonArray arr, s)))"

definition row_loop_body ::
  "(ToonParser \<Rightarrow> toon result) \<Rightarrow>
   (string list \<Rightarrow> (string \<times> toon) list \<Rightarrow> ToonParser \<Rightarrow> row result) \<Rightarrow>
   string \<Rightarrow> string list \<Rightarrow> (string \<times> toon) list \<Rightarrow> ToonParser \<Rightarrow> row result" where
  "row_loop_body parse_value row_loop str keys obj s =
     (case keys of
        [] \<Rightarrow> Some (Inr (RowDone obj, s))
      | key # rest \<Rightarrow>
          (let s1 = consume_whitespace str s in
           if i s1 = length str \<or> str ! i s1 = CHR 0x0A then Some (Inr (RowFailed, s1))
           else
             (case parse_value s1 of
                None \<Rightarrow> None
              | Some (Inl e) \<Rightarrow> Some (Inl e)
              | Some (Inr (val, s2)) \<Rightarrow>
                  if failed s2 then Some (Inr (RowAbort, s2))
                  else
                    (let s3 = consume_whitespace str s2;
                         s4 = (if rest \<noteq> [] \<and> i s3 < length str \<and> str ! i s3 = CHR '',''
                               then s3\<lparr>i := i s3 + 1\<rparr> else s3)
                     in row_loop rest (map_assign key val obj) s4))))"

definition standard_loop_body ::
  "(ToonParser \<Rightarrow> toon result) \<Rightarrow>
   (int \<Rightarrow> int \<Rightarrow> toon list \<Rightarrow> ToonParser \<Rightarrow> toon result) \<Rightarrow>
   string \<Rightarrow> int \<Rightarrow> int \<Rightarrow> toon list \<Rightarrow> ToonParser \<Rightarrow> toon result" where
  "standard_loop_body parse_value standard_loop str count k arr s =
     (if count < 0 \<or> k < count then
        (let s1 = consume_garbage str s in
         if i s1 = length str then Some (Inr (ToonArray arr, s1))
         else
           (case parse_value s1 of
              None \<Rightarrow> None
            | Some (Inl e) \<Rightarrow> Some (Inl e)
            | Some (Inr (val, s2)) \<Rightarrow>
                (let s3 = consume_whitespace str s2 in
                 if i s3 < length str \<and> str ! i s3 = CHR '','' then
                   standard_loop count (k + 1) (arr @ [val]) (s3\<lparr>i := i s3 + 1\<rparr>)
                 else if count < 0 then Some (Inr (ToonArray (arr @ [val]), s3))
                 else standard_loop count (k + 1) (arr @ [val]) s3)))
      else Some (Inr (ToonArray arr, s)))"

definition object_loop_body ::
  "(ToonParser \<Rightarrow> toon result) \<Rightarrow> (int \<Rightarrow> ToonParser \<Rightarrow> toon result) \<Rightarrow>
   (int \<Rightarrow> ToonParser \<Rightarrow> toon result) \<Rightarrow>
   (int \<Rightarrow> (string \<times> toon) list \<Rightarrow> ToonParser \<Rightarrow> toon result) \<Rightarrow>
   string \<Rightarrow> int \<Rightarrow> (string \<times> toon) list \<Rightarrow> ToonParser \<Rightarrow> toon result" where
  "object_loop_body parse_value parse_array parse_object object_loop str parent_indent obj s =
     (if i s < length str then
        (let s1 = consume_garbage str s;
             current_indent = get_indent str s1 in
         if current_indent \<le> parent_indent \<and> obj \<noteq> [] then Some (Inr (ToonObject obj, s1))
         else
           (let k1 = scan_while (\<lambda>c. c \<noteq> CHR '':'') str (i s1);
                key = substr str (i s1) (k1 - i s1) in
            if k1 = length str then Some (Inr (ToonObject obj, s1\<lparr>i := k1\<rparr>))
            else
              (let s2 = consume_whitespace str (s1\<lparr>i := k1 + 1\<rparr>) in
               case (if i s2 < length str \<and> str ! i s2 = CHR 0x0A then
                       (let s3 = consume_garbage str (s2\<lparr>i := i s2 + 1\<rparr>) in
                        if at str (i s3) = CHR ''['' then parse_array current_indent s3
                        else parse_object current_indent s3)
                     else if at str (i s2) = CHR ''['' then parse_array current_indent s2
                     else parse_value s2) of
                 None \<Rightarrow> None
               | Some (Inl e) \<Rightarrow> Some (Inl e)
               | Some (Inr (val, s4)) \<Rightarrow> object_loop parent_indent (map_assign key val obj) s4)))
      else Some (Inr (ToonObject obj, s)))"

record parsers =
  p_value :: "ToonParser \<Rightarrow> toon result"
  p_array :: "int \<Rightarrow> ToonParser \<Rightarrow> toon result"
  p_tabular :: "int \<Rightarrow> string list \<Rightarrow> toon list \<Rightarrow> ToonParser \<Rightarrow> toon result"
  p_row :: "string list \<Rightarrow> (string \<times> toon) list \<Rightarrow> ToonParser \<Rightarrow> row result"
  p_standard :: "int \<Rightarrow> int \<Rightarrow> toon list \<Rightarrow> ToonParser \<Rightarrow> toon result"
  p_object :: "int \<Rightarrow> ToonParser \<Rightarrow> toon result"
  p_object_loop :: "int \<Rightarrow> (string \<times> toon) list \<Rightarrow> ToonParser \<Rightarrow> toon result"

primrec parsers_at :: "nat \<Rightarrow> (string \<Rightarrow> double) \<Rightarrow> string \<Rightarrow> parsers" where
  "parsers_at 0 sv str =
     \<lparr>p_value = (\<lambda>s. None), p_array = (\<lambda>p s. None), p_tabular = (\<lambda>p keys arr s. None),
      p_row = (\<lambda>keys obj s. None), p_standard = (\<lambda>count k arr s. None),
      p_object = (\<lambda>p s. None), p_object_loop = (\<lambda>p obj s. None)\<rparr>"
| "parsers_at (Suc n) sv str =
     (let r = parsers_at n sv str in
      \<lparr>p_value = parse_value_body (p_array r) sv str,
       p_array = parse_array_body (p_tabular r) (p_standard r) str,
       p_tabular = tabular_loop_body (p_row r) (p_tabular r) str,
       p_row = row_loop_body (p_value r) (p_row r) str,
       p_standard = standard_loop_body (p_value r) (p_standard r) str,
       p_object = (\<lambda>parent_indent. p_object_loop r parent_indent []),
       p_object_loop = object_loop_body (p_value r) (p_array r) (p_object r) (p_object_loop r) str\<rparr>)"

definition parse_value :: "nat \<Rightarrow> (string \<Rightarrow> double) \<Rightarrow> string \<Rightarrow> ToonParser \<Rightarrow> toon result" where
  "parse_value n sv str = p_value (parsers_at n sv str)"

definition parse_array :: "nat \<Rightarrow> (string \<Rightarrow> double) \<Rightarrow> string \<Rightarrow> int \<Rightarrow> ToonParser \<Rightarrow> toon result" where
  "parse_array n sv str = p_array (parsers_at n sv str)"

definition tabular_loop ::
  "nat \<Rightarrow> (string \<Rightarrow> double) \<Rightarrow> string \<Rightarrow> int \<Rightarrow> string list \<Rightarrow> toon list \<Rightarrow> ToonParser \<Rightarrow> toon result" where
  "tabular_loop n sv str = p_tabular (parsers_at n sv str)"

definition row_loop ::
  "nat \<Rightarrow> (string \<Rightarrow> double) \<Rightarrow> string \<Rightarrow> string list \<Rightarrow> (string \<times> toon) list \<Rightarrow> ToonParser \<Rightarrow> row result" where
  "row_loop n sv str = p_row (parsers_at n sv str)"

definition standard_loop ::
  "nat \<Rightarrow> (string \<Rightarrow> double) \<Rightarrow> string \<Rightarrow> int \<Rightarrow> int \<Rightarrow> toon list \<Rightarrow> ToonParser \<Rightarrow> toon result" where
  "standard_loop n sv str = p_standard (parsers_at n sv str)"

definition parse_object :: "nat \<Rightarrow> (string \<Rightarrow> double) \<Rightarrow> string \<Rightarrow> int \<Rightarrow> ToonParser \<Rightarrow> toon result" where
  "parse_object n sv str = p_object (parsers_at n sv str)"

definition object_loop ::
  "nat \<Rightarrow> (string \<Rightarrow> double) \<Rightarrow> string \<Rightarrow> int \<Rightarrow> (string \<times> toon) list \<Rightarrow> ToonParser \<Rightarrow> toon result" where
  "object_loop n sv str = p_object_loop (parsers_at n sv str)"

text \<open>\<open>Toon::parse\<close>. The parser starts at offset 0 with \<open>failed\<close> cleared and writes to
  the caller's \<open>err\<close>, whose content at the call is \<open>err0\<close>; the result is the value
  returned and the content of \<open>err\<close> at the return.\<close>

definition parse :: "nat \<Rightarrow> (string \<Rightarrow> double) \<Rightarrow> string \<Rightarrow> string \<Rightarrow> (exn + toon \<times> string) option" where
  "parse fuel sv input err0 =
     (let parser = consume_garbage input \<lparr>i = 0, err = err0, failed = False, failures = []\<rparr> in
      if i parser = length input then Some (Inr (ToonNull, err parser))
      else
        map_option (map_sum id (\<lambda>(v, s). (v, err s)))
          (if input ! i parser = CHR ''['' then parse_value fuel sv input parser
           else if CHR '':'' \<in> set input then parse_object fuel sv input (-1) parser
           else parse_value fuel sv input parser))"

text \<open>The methods with their recursion.\<close>

lemma parse_value_0 [simp, code]: "parse_value 0 sv str s = None"
  and parse_array_0 [simp, code]: "parse_array 0 sv str p s = None"
  and tabular_loop_0 [simp, code]: "tabular_loop 0 sv str p keys arr s = None"
  and row_loop_0 [simp, code]: "row_loop 0 sv str keys obj s = None"
  and standard_loop_0 [simp, code]: "standard_loop 0 sv str count k arr s = None"
  and parse_object_0 [simp, code]: "parse_object 0 sv str p s = None"
  and object_loop_0 [simp, code]: "object_loop 0 sv str p obj s = None"
  by (simp_all add: parse_value_def parse_array_def tabular_loop_def row_loop_def
      standard_loop_def parse_object_def object_loop_def)

lemma parse_value_Suc [code]:
  "parse_value (Suc n) sv str s = parse_value_body (parse_array n sv str) sv str s"
  and parse_array_Suc [code]:
  "parse_array (Suc n) sv str p s =
     parse_array_body (tabular_loop n sv str) (standard_loop n sv str) str p s"
  and tabular_loop_Suc [code]:
  "tabular_loop (Suc n) sv str p keys arr s =
     tabular_loop_body (row_loop n sv str) (tabular_loop n sv str) str p keys arr s"
  and row_loop_Suc [code]:
  "row_loop (Suc n) sv str keys obj s =
     row_loop_body (parse_value n sv str) (row_loop n sv str) str keys obj s"
  and standard_loop_Suc [code]:
  "standard_loop (Suc n) sv str count k arr s =
     standard_loop_body (parse_value n sv str) (standard_loop n sv str) str count k arr s"
  and parse_object_Suc [code]:
  "parse_object (Suc n) sv str p s = object_loop n sv str p [] s"
  and object_loop_Suc [code]:
  "object_loop (Suc n) sv str p obj s =
     object_loop_body (parse_value n sv str) (parse_array n sv str) (parse_object n sv str)
       (object_loop n sv str) str p obj s"
  by (simp_all add: parse_value_def parse_array_def tabular_loop_def row_loop_def
      standard_loop_def parse_object_def object_loop_def Let_def)

section \<open>The claims, as the specification words them\<close>

text \<open>A numeric literal, for the quoting rule of the specification: text that \<open>strtod\<close>
  converts and consumes to its end.\<close>

definition numeric_literal :: "string \<Rightarrow> bool" where
  "numeric_literal s = (s \<noteq> [] \<and> strtod_end s = length s)"

text \<open>The quoting decision as the specification states it.\<close>

definition spec_needs_quoting :: "string \<Rightarrow> bool" where
  "spec_needs_quoting s =
     (s = [] \<or> s = ''null'' \<or> s = ''true'' \<or> s = ''false'' \<or> numeric_literal s \<or>
      (\<exists>c. c \<in> set s \<and> c \<in> set special))"

text \<open>
  The two array forms, as the specification describes them: \<open>join\<close> puts a separator
  between the texts of a list, \<open>verbose_form\<close> is \<open>[N]:\<close> with the elements inline at the
  same level, \<open>tabular_form\<close> the header of the keys of the first element and one
  indented row per element. An array is eligible for the tabular form when it is not
  empty, every element is an object and every element has the key set of the first.
\<close>

fun join :: "string \<Rightarrow> string list \<Rightarrow> string" where
  "join sep [] = []"
| "join sep [t] = t"
| "join sep (t # ts) = t @ sep @ join sep ts"

definition same_key_set :: "toon \<Rightarrow> toon \<Rightarrow> bool" where
  "same_key_set v w =
     (length (object_items v) = length (object_items w) \<and>
      set (map fst (object_items v)) = set (map fst (object_items w)))"

definition tabular_eligible :: "toon list \<Rightarrow> bool" where
  "tabular_eligible xs =
     (xs \<noteq> [] \<and> (\<forall>v \<in> set xs. is_object v) \<and> (\<forall>v \<in> set xs. same_key_set v (hd xs)))"

definition verbose_form :: "(double \<Rightarrow> string) \<Rightarrow> toon list \<Rightarrow> int \<Rightarrow> string option" where
  "verbose_form g17 xs level =
     map_option (\<lambda>ts. ''['' @ to_string (length xs) @ '']:'' @ (if ts = [] then [] else '' '' @ join '', '' ts))
       (those (map (\<lambda>v. dump g17 v level) xs))"

definition cell_form :: "(double \<Rightarrow> string) \<Rightarrow> int \<Rightarrow> toon \<Rightarrow> string \<Rightarrow> string option" where
  "cell_form g17 level v k =
     (case map_find (object_items v) k of None \<Rightarrow> None | Some c \<Rightarrow> dump g17 c (level + 1))"

definition row_form :: "(double \<Rightarrow> string) \<Rightarrow> string list \<Rightarrow> int \<Rightarrow> toon \<Rightarrow> string option" where
  "row_form g17 keys level v =
     map_option (\<lambda>cells. indent (level + 1) @ join '', '' cells) (those (map (cell_form g17 level v) keys))"

definition tabular_form :: "(double \<Rightarrow> string) \<Rightarrow> toon list \<Rightarrow> int \<Rightarrow> string option" where
  "tabular_form g17 xs level =
     (let keys = map fst (object_items (hd xs)) in
      map_option (\<lambda>rows. ''[{'' @ join '', '' keys @ ''}]:'' @ [CHR 0x0A] @ join [CHR 0x0A] rows)
        (those (map (row_form g17 keys level) xs)))"

text \<open>
  What "first-error-sticky" means for a run of a parser method from the state \<open>s\<close> to
  the state \<open>s'\<close>. Let \<open>new\<close> be the failures of the run, that is the messages the run
  has added to the history. Then \<open>failed\<close> is set at the end if and only if it was set at
  the start or the run has failed; \<open>err\<close> is the message of the first failure of the run
  when \<open>failed\<close> was clear at the start and the run has failed; and \<open>err\<close> is what it
  was at the start otherwise, so that no later failure overwrites a message and nothing
  but a failure writes one. \<open>preserves f\<close> says so of every run of \<open>f\<close> that returns.
\<close>

definition sticky :: "ToonParser \<Rightarrow> ToonParser \<Rightarrow> bool" where
  "sticky s s' =
     (let new = drop (length (failures s)) (failures s') in
      failures s' = failures s @ new \<and>
      failed s' = (failed s \<or> new \<noteq> []) \<and>
      err s' = (if failed s \<or> new = [] then err s else hd new))"

definition preserves :: "(ToonParser \<Rightarrow> 'a result) \<Rightarrow> bool" where
  "preserves f = (\<forall>s v s'. f s = Some (Inr (v, s')) \<longrightarrow> sticky s s')"

text \<open>
  The scalar values for which the round trip is proved (C1): the null value, the
  booleans, and the strings that either are written without quotes and are read back as
  an unquoted string (\<open>plain_roundtrip\<close>: no inline white space at either end, no
  leading double quote, digit or minus sign, no leading \<open>null\<close>, \<open>true\<close> or \<open>false\<close>),
  or are written in quotes with escapes the decoder accepts and without a colon, which
  would send the whole text to \<open>parse_object\<close> (\<open>quoted_roundtrip\<close>).
\<close>

definition escape_accepted :: "char \<Rightarrow> bool" where
  "escape_accepted c = ((of_char c :: nat) > 0x1F \<or> c = CHR 0x0A \<or> c = CHR 0x0D \<or> c = CHR 0x09)"

definition plain_roundtrip :: "string \<Rightarrow> bool" where
  "plain_roundtrip s =
     (\<not> needs_quoting s \<and> \<not> is_inline_space (hd s) \<and> \<not> is_inline_space (last s) \<and>
      hd s \<noteq> CHR 0x22 \<and> \<not> isdigit (hd s) \<and> hd s \<noteq> CHR ''-'' \<and>
      take 4 s \<noteq> ''null'' \<and> take 4 s \<noteq> ''true'' \<and> take 5 s \<noteq> ''false'')"

definition quoted_roundtrip :: "string \<Rightarrow> bool" where
  "quoted_roundtrip s = (needs_quoting s \<and> CHR '':'' \<notin> set s \<and> list_all escape_accepted s)"

fun scalar_roundtrip :: "toon \<Rightarrow> bool" where
  "scalar_roundtrip ToonNull = True"
| "scalar_roundtrip (ToonBoolean b) = True"
| "scalar_roundtrip (ToonString s) = (plain_roundtrip s \<or> quoted_roundtrip s)"
| "scalar_roundtrip v = False"

text \<open>\<open>extends f g\<close>: every result of \<open>f\<close> is the result of \<open>g\<close> from the same state,
  as for a method and the same method with more fuel.\<close>

definition extends :: "(ToonParser \<Rightarrow> 'a result) \<Rightarrow> (ToonParser \<Rightarrow> 'a result) \<Rightarrow> bool" where
  "extends f g = (\<forall>s r. f s = Some r \<longrightarrow> g s = Some r)"

(*PROPERTIES*)

section \<open>Encoder: strings\<close>

lemma has_special_iff: "has_special s = (\<exists>c. c \<in> set s \<and> c \<in> set special)"
  by (induction s) auto

lemma escape_loop_concat: "escape_loop s = concat (map escape_char s)"
  by (induction s) auto

text \<open>
  C4, as the code has it. A string is written between double quotes, each byte escaped by
  \<open>escape_char\<close>, exactly when it is empty, is \<open>null\<close>, \<open>true\<close> or \<open>false\<close>, begins
  with a digit or a minus sign and is consumed to its end by \<open>strtod\<close>, or holds one of
  the bytes \<open>, : \n [ ] { } #\<close>; every other string is written as it is, byte for byte.
  The test with \<open>strtod\<close> is made only behind the guard on the first byte.
\<close>

theorem dump_string_quoting:
  "dump_string s =
     (if s = [] \<or> s = ''null'' \<or> s = ''true'' \<or> s = ''false'' \<or>
         ((isdigit (hd s) \<or> hd s = CHR ''-'') \<and> strtod_end (c_str s) = length (c_str s)) \<or>
         (\<exists>c. c \<in> set s \<and> c \<in> set special)
      then [CHR 0x22] @ concat (map escape_char s) @ [CHR 0x22]
      else s)"
  unfolding dump_string_def needs_quoting_def has_special_iff escape_loop_concat
  by auto

text \<open>
  C4, as the specification states it, fails: \<open>.5\<close> is a numeric literal that \<open>strtod\<close>
  consumes entirely, and the encoder writes it without quotes, since it begins with
  neither a digit nor a minus sign.
\<close>

theorem quoting_numeric_counterexample:
  "spec_needs_quoting ''.5'' \<and> dump_string ''.5'' = ''.5''"
  by code_simp

section \<open>Encoder: empty containers\<close>

text \<open>
  C9. At every indentation level the empty array is written as \<open>[0]:\<close> and nothing
  more, and the empty object as the empty text.
\<close>

theorem dump_empty_containers:
  "dump g17 (ToonArray []) level = Some ''[0]:'' \<and> dump g17 (ToonObject []) level = Some []"
  by simp

section \<open>Indexing\<close>

text \<open>
  C10. Indexing never fails. \<open>v[k]\<close> is the \<open>k\<close>-th element when \<open>v\<close> is an array and
  \<open>k\<close> is below its length, and the null value in every other case; \<open>v[key]\<close> is the
  value stored under \<open>key\<close> when \<open>v\<close> is an object that holds \<open>key\<close>, and the null
  value in every other case.
\<close>

theorem index_total:
  "(is_array v \<and> k < length (array_items v) \<longrightarrow> Toon_index v k = array_items v ! k) \<and>
   (\<not> (is_array v \<and> k < length (array_items v)) \<longrightarrow> Toon_index v k = ToonNull) \<and>
   (is_object v \<and> map_find (object_items v) key = Some w \<longrightarrow> Toon_index_key v key = w) \<and>
   (\<not> (is_object v \<and> key \<in> fst ` set (object_items v)) \<longrightarrow> Toon_index_key v key = ToonNull)"
  by (cases v)
    (auto simp: is_array_def is_object_def ToonArray_index_def ToonObject_index_def
      ToonValue_index_def map_find_def map_of_eq_None_iff split: option.splits
      dest: map_of_SomeD intro: rev_image_eqI)

theorem index_total_witness:
  "Toon_index (ToonArray [ToonBoolean True, ToonNull]) 0 = ToonBoolean True \<and>
   Toon_index (ToonArray [ToonBoolean True, ToonNull]) 2 = ToonNull \<and>
   Toon_index (ToonString ''a'') 0 = ToonNull \<and>
   Toon_index_key (ToonObject [(''a'', ToonInt 1)]) ''a'' = ToonInt 1 \<and>
   Toon_index_key (ToonObject [(''a'', ToonInt 1)]) ''b'' = ToonNull \<and>
   Toon_index_key (ToonArray []) ''a'' = ToonNull"
  using index_total [of "ToonArray [ToonBoolean True, ToonNull]" 0 "''a''" ToonNull]
    index_total [of "ToonArray [ToonBoolean True, ToonNull]" 2 "''a''" ToonNull]
    index_total [of "ToonString ''a''" 0 "''a''" ToonNull]
    index_total [of "ToonObject [(''a'', ToonInt 1)]" 0 "''a''" "ToonInt 1"]
    index_total [of "ToonObject [(''a'', ToonInt 1)]" 0 "''b''" ToonNull]
  by (simp add: is_array_def is_object_def map_find_def)

section \<open>Encoder: arrays\<close>

lemma join_Cons: "join sep (t # ts) = t @ (if ts \<noteq> [] then sep else []) @ join sep ts"
  by (cases ts) auto

lemma to_string_0: "to_string 0 = ''0''"
  by code_simp

lemma those_Nil_iff: "those xs = Some [] \<longleftrightarrow> xs = []"
  by (cases xs) (auto split: option.splits)

lemma those_map_Nil_iff: "those (map f xs) = Some [] \<longleftrightarrow> xs = []"
  by (simp add: those_Nil_iff)

lemma dump_keys_join: "dump_keys ks = join '', '' ks"
  by (induction ks) (auto simp: join_Cons simp del: join.simps(3))

lemma dump_elems_join:
  "dump_elems g17 xs level = map_option (join '', '') (those (map (\<lambda>v. dump g17 v level) xs))"
  by (induction xs) (auto simp: join_Cons those_map_Nil_iff simp del: join.simps(3) split: option.splits)

lemma dump_cells_join:
  "dump_cells g17 (object_items v) ks level =
     map_option (join '', '') (those (map (cell_form g17 level v) ks))"
  by (induction ks) (auto simp: join_Cons cell_form_def those_map_Nil_iff simp del: join.simps(3) split: option.splits)

lemma dump_rows_join:
  "dump_rows g17 keys xs level = map_option (join [CHR 0x0A]) (those (map (row_form g17 keys level) xs))"
  by (induction xs)
    (auto simp: join_Cons row_form_def dump_cells_join those_map_Nil_iff simp del: join.simps(3) split: option.splits)

lemma check_keys_iff: "check_keys obj ks = (set ks \<subseteq> fst ` set obj)"
  by (induction ks) (auto simp: map_find_def map_of_eq_None_iff)

lemma check_rows_iff:
  "check_rows keys vs =
     (\<forall>v \<in> set vs. is_object v \<and> length (object_items v) = length keys \<and>
        set keys \<subseteq> fst ` set (object_items v))"
  by (induction vs) (auto simp: check_keys_iff)

text \<open>The encoder never throws: in the tabular form every key it looks up with \<open>at\<close> has
  been found by the check before.\<close>

lemma check_keys_self: "check_keys m (map fst m)"
  by (simp add: check_keys_iff)

lemma all_objects_check_keys:
  assumes "all_objects xs" "xs \<noteq> []" "v \<in> set xs"
  shows "check_keys (object_items v) (tabular_keys xs)"
proof -
  obtain x rest where xs: "xs = x # rest" using assms(2) by (cases xs) auto
  show ?thesis
    using assms(1,3) unfolding xs all_objects_def tabular_keys_def
    by (auto simp: check_keys_iff check_rows_iff split: if_splits)
qed

lemma dump_total_aux:
  "(\<exists>t. dump g17 v level = Some t)"
  "(\<exists>t. dump_elems g17 vs level = Some t)"
  "(\<forall>v \<in> set vs. check_keys (object_items v) keys) \<longrightarrow> (\<exists>t. dump_rows g17 keys vs level = Some t)"
  "check_keys obj ks \<longrightarrow> (\<exists>t. dump_cells g17 obj ks level = Some t)"
  "(\<exists>t. dump_entries g17 first kvs level = Some t)"
proof (induction g17 v level and g17 vs level and g17 keys vs level and g17 obj ks level
    and g17 first kvs level rule: dump_dump_elems_dump_rows_dump_cells_dump_entries.induct)
  case (6 g17 "values" level)
  show ?case
  proof (cases "values \<noteq> [] \<and> all_objects values \<and> tabular_keys values \<noteq> []")
    case True
    then have "\<forall>v \<in> set values. check_keys (object_items v) (tabular_keys values)"
      using all_objects_check_keys by blast
    with 6(1) True show ?thesis by auto
  next
    case False
    with 6(2) show ?thesis by auto
  qed
next
  case (13 g17 obj k ks level)
  show ?case
  proof
    assume ck: "check_keys obj (k # ks)"
    then obtain c where c: "map_find obj k = Some c"
      by (cases "map_find obj k") auto
    from 13(1) [OF c] obtain t where t: "dump g17 c (level + 1) = Some t"
      by blast
    from ck c have "check_keys obj ks"
      by simp
    with 13(2) [OF c t] obtain r where "dump_cells g17 obj ks level = Some r"
      by blast
    with c t show "\<exists>t. dump_cells g17 obj (k # ks) level = Some t"
      by simp
  qed
next
  case (15 g17 first kv kvs level)
  from 15(1) obtain t where t: "dump g17 (snd kv)
      (if is_object (snd kv) \<or> is_array (snd kv) then level + 1 else level) = Some t"
    by blast
  from 15(2) [OF t] obtain r where "dump_entries g17 False kvs level = Some r"
    by blast
  with t show ?case by simp
qed (auto split: option.splits)

lemma dump_total: "\<exists>t. dump g17 v level = Some t"
  by (rule dump_total_aux)

lemma key_sets_eq:
  assumes "distinct (map fst a)" "distinct (map fst b)" "length a = length b"
    and "fst ` set b \<subseteq> fst ` set a"
  shows "fst ` set a = fst ` set b"
proof -
  have "card (fst ` set a) = length a" "card (fst ` set b) = length b"
    using assms(1,2) distinct_card [of "map fst a"] distinct_card [of "map fst b"] by auto
  then have "card (fst ` set a) = card (fst ` set b)" using assms(3) by simp
  with assms(4) show ?thesis
    by (metis List.finite_set card_subset_eq finite_imageI)
qed

lemma same_key_set_iff:
  assumes "map_ok (object_items v)" "map_ok (object_items x)"
  shows "same_key_set v x \<longleftrightarrow>
    length (object_items v) = length (object_items x) \<and>
    fst ` set (object_items x) \<subseteq> fst ` set (object_items v)"
proof
  assume "same_key_set v x"
  then show "length (object_items v) = length (object_items x) \<and>
    fst ` set (object_items x) \<subseteq> fst ` set (object_items v)"
    by (simp add: same_key_set_def)
next
  assume h: "length (object_items v) = length (object_items x) \<and>
    fst ` set (object_items x) \<subseteq> fst ` set (object_items v)"
  have "fst ` set (object_items v) = fst ` set (object_items x)"
    using assms h by (intro key_sets_eq) (simp_all add: map_ok_def)
  with h show "same_key_set v x"
    by (simp add: same_key_set_def)
qed

lemma same_key_set_refl: "same_key_set v v"
  by (simp add: same_key_set_def)

lemma all_objects_eligible:
  assumes "xs \<noteq> []" "\<forall>v \<in> set xs. map_ok (object_items v)"
  shows "all_objects xs = tabular_eligible xs"
proof -
  obtain x rest where xs: "xs = x # rest"
    using assms(1) by (cases xs) auto
  have okx: "map_ok (object_items x)"
    using assms(2) xs by simp
  have "check_rows (map fst (object_items x)) rest =
          (\<forall>v \<in> set rest. is_object v \<and> same_key_set v x)"
    unfolding check_rows_iff
  proof (intro ball_cong refl)
    fix v assume "v \<in> set rest"
    then have "map_ok (object_items v)"
      using assms(2) xs by simp
    from same_key_set_iff [OF this okx]
    show "(is_object v \<and> length (object_items v) = length (map fst (object_items x)) \<and>
            set (map fst (object_items x)) \<subseteq> fst ` set (object_items v)) =
          (is_object v \<and> same_key_set v x)"
      by simp
  qed
  then show ?thesis
    unfolding all_objects_def tabular_eligible_def tabular_keys_def xs
    by (auto simp: same_key_set_refl)
qed

text \<open>
  C3, as the code has it. For an array whose elements are well-formed maps, the encoder
  writes the tabular form exactly when the array is not empty, every element is an
  object with the key set of the first element, and that key set is not empty; it
  writes the \<open>[N]:\<close> form for every other array.
\<close>

theorem dump_array_form:
  assumes "\<forall>v \<in> set xs. map_ok (object_items v)"
  shows "dump g17 (ToonArray xs) level =
     (if tabular_eligible xs \<and> object_items (hd xs) \<noteq> [] then tabular_form g17 xs level
      else verbose_form g17 xs level)"
proof (cases "xs = []")
  case True
  then show ?thesis by (simp add: verbose_form_def tabular_eligible_def to_string_0)
next
  case False
  have k: "tabular_keys xs \<noteq> [] \<longleftrightarrow> is_object (hd xs) \<and> object_items (hd xs) \<noteq> []"
    by (simp add: tabular_keys_def)
  have e: "tabular_eligible xs \<Longrightarrow> is_object (hd xs)"
    using False by (simp add: tabular_eligible_def)
  have t: "those (map (\<lambda>v. dump g17 v level) xs) = Some ts \<Longrightarrow> ts \<noteq> []" for ts
    using False by (cases xs) (auto split: option.splits)
  show ?thesis
    using False all_objects_eligible [OF False assms] k e t
    by (auto simp: tabular_form_def verbose_form_def dump_rows_join dump_elems_join
        dump_keys_join tabular_keys_def Let_def option.map_comp comp_def
        split: option.splits)
qed

theorem dump_array_form_witness:
  "dump (\<lambda>d. []) (ToonArray [ToonObject [(''x'', ToonInt 1), (''y'', ToonInt 2)],
       ToonObject [(''x'', ToonInt 3), (''y'', ToonInt 4)]]) 0 =
     Some ''[{x, y}]:
  1, 2
  3, 4'' \<and>
   dump (\<lambda>d. []) (ToonArray [ToonInt 1, ToonInt 2, ToonInt 3]) 0 = Some ''[3]: 1, 2, 3''"
proof -
  have a: "\<forall>v \<in> set [ToonObject [(''x'', ToonInt 1), (''y'', ToonInt 2)],
       ToonObject [(''x'', ToonInt 3), (''y'', ToonInt 4)]]. map_ok (object_items v)"
    by (simp add: map_ok_def)
  have b: "\<forall>v \<in> set [ToonInt 1, ToonInt 2, ToonInt 3]. map_ok (object_items v)"
    by (simp add: map_ok_def)
  have c: "tabular_eligible [ToonObject [(''x'', ToonInt 1), (''y'', ToonInt 2)],
       ToonObject [(''x'', ToonInt 3), (''y'', ToonInt 4)]]"
    by (simp add: tabular_eligible_def same_key_set_def is_object_def)
  have d: "\<not> tabular_eligible [ToonInt 1, ToonInt 2, ToonInt 3]"
    by (simp add: tabular_eligible_def same_key_set_def is_object_def)
  have e: "tabular_form (\<lambda>d. []) [ToonObject [(''x'', ToonInt 1), (''y'', ToonInt 2)],
       ToonObject [(''x'', ToonInt 3), (''y'', ToonInt 4)]] 0 = Some ''[{x, y}]:
  1, 2
  3, 4''"
    by code_simp
  have f: "verbose_form (\<lambda>d. []) [ToonInt 1, ToonInt 2, ToonInt 3] 0 = Some ''[3]: 1, 2, 3''"
    by code_simp
  show ?thesis
    using dump_array_form [OF a, of "\<lambda>d. []" 0] dump_array_form [OF b, of "\<lambda>d. []" 0] c d e f
    by simp
qed

text \<open>
  C3, as the specification states it, fails for an array of objects without keys: the
  array holding one empty object is eligible, and the encoder writes \<open>[1]: \<close>, not the
  tabular header.
\<close>

theorem tabular_empty_keys_counterexample:
  "tabular_eligible [ToonObject []] \<and>
   dump (\<lambda>d. []) (ToonArray [ToonObject []]) 0 = Some ''[1]: '' \<and>
   tabular_form (\<lambda>d. []) [ToonObject []] 0 = Some ''[{}]:
  ''"
proof -
  have "tabular_eligible [ToonObject []]"
    by (simp add: tabular_eligible_def same_key_set_def is_object_def)
  moreover have "dump (\<lambda>d. []) (ToonArray [ToonObject []]) 0 = Some ''[1]: ''"
    by code_simp
  moreover have "tabular_form (\<lambda>d. []) [ToonObject []] 0 = Some ''[{}]:
  ''"
    by code_simp
  ultimately show ?thesis by simp
qed

section \<open>Decoder: the sticky error\<close>

lemma sticky_iff:
  "sticky s s' =
     (\<exists>new. failures s' = failures s @ new \<and> failed s' = (failed s \<or> new \<noteq> []) \<and>
        err s' = (if failed s \<or> new = [] then err s else hd new))"
proof
  assume "sticky s s'"
  then show "\<exists>new. failures s' = failures s @ new \<and> failed s' = (failed s \<or> new \<noteq> []) \<and>
        err s' = (if failed s \<or> new = [] then err s else hd new)"
    unfolding sticky_def Let_def by (intro exI [of _ "drop (length (failures s)) (failures s')"])
next
  assume "\<exists>new. failures s' = failures s @ new \<and> failed s' = (failed s \<or> new \<noteq> []) \<and>
        err s' = (if failed s \<or> new = [] then err s else hd new)"
  then obtain new where n: "failures s' = failures s @ new" "failed s' = (failed s \<or> new \<noteq> [])"
    "err s' = (if failed s \<or> new = [] then err s else hd new)"
    by blast
  have d: "drop (length (failures s)) (failures s') = new"
    by (simp add: n(1))
  show "sticky s s'"
    unfolding sticky_def Let_def d using n by simp
qed

lemma sticky_refl [simp]: "sticky s s"
  by (simp add: sticky_def)

lemma sticky_trans:
  assumes "sticky s s1" and "sticky s1 s2"
  shows "sticky s s2"
proof -
  obtain new1 where a: "failures s1 = failures s @ new1" "failed s1 = (failed s \<or> new1 \<noteq> [])"
    "err s1 = (if failed s \<or> new1 = [] then err s else hd new1)"
    using assms(1) unfolding sticky_iff by blast
  obtain new2 where b: "failures s2 = failures s1 @ new2" "failed s2 = (failed s1 \<or> new2 \<noteq> [])"
    "err s2 = (if failed s1 \<or> new2 = [] then err s1 else hd new2)"
    using assms(2) unfolding sticky_iff by blast
  have "failures s2 = failures s @ (new1 @ new2) \<and> failed s2 = (failed s \<or> new1 @ new2 \<noteq> []) \<and>
        err s2 = (if failed s \<or> new1 @ new2 = [] then err s else hd (new1 @ new2))"
    by (simp add: a b)
  then show ?thesis
    unfolding sticky_iff by (rule exI)
qed

lemma sticky_i [simp]: "sticky s (s'\<lparr>i := k\<rparr>) = sticky s s'" "sticky (s\<lparr>i := k\<rparr>) s' = sticky s s'"
  by (simp_all add: sticky_def)

lemma sticky_fail [simp]: "sticky s (snd (fail s msg))"
  by (simp add: sticky_def fail_def)

lemma sticky_fail_after: "sticky s s1 \<Longrightarrow> sticky s (snd (fail s1 msg))"
  by (erule sticky_trans) simp

lemma sticky_consume [simp]:
  "sticky s (consume_whitespace str s') = sticky s s'"
  "sticky (consume_whitespace str s) s' = sticky s s'"
  "sticky s (consume_garbage str s') = sticky s s'"
  "sticky (consume_garbage str s) s' = sticky s s'"
  by (simp_all add: consume_whitespace_def consume_garbage_def)

lemma unicode_escape_sticky:
  "unicode_escape str s out = Inl r \<Longrightarrow> sticky s (snd r)"
  "unicode_escape str s out = Inr (s2, out2) \<Longrightarrow> sticky s s2"
  by (auto simp: unicode_escape_def split: if_splits prod.splits intro: sticky_fail_after)

lemma parse_quoted_string_loop_sticky: "sticky s (snd (parse_quoted_string_loop str s out))"
proof (induction "length str - i s" arbitrary: s out rule: less_induct)
  case less
  have ih: "sticky s' (snd (parse_quoted_string_loop str s' out'))"
    if "i s < i s'" "i s < length str" for s' out'
    using less [of s' out'] that by simp
  have k0: "sticky s (snd (parse_quoted_string_loop str (s\<lparr>i := Suc (i s)\<rparr>) out'))"
    if "i s < length str" for out'
    using ih [of "s\<lparr>i := Suc (i s)\<rparr>" out'] that by simp
  show ?case
  proof (cases "unicode_escape str (s\<lparr>i := i s + 1\<rparr>) out")
    case (Inl r)
    with unicode_escape_sticky(1) [OF Inl] k0 show ?thesis
      by (subst parse_quoted_string_loop.simps) (auto simp: sticky_fail_after)
  next
    case (Inr p)
    obtain s2 out2 where p: "p = (s2, out2)" by (cases p)
    have st: "sticky s s2"
      using unicode_escape_sticky(2) [of str "s\<lparr>i := i s + 1\<rparr>" out s2 out2] Inr p by simp
    have ge: "i s < i s2"
      using unicode_escape_ge [of str "s\<lparr>i := i s + 1\<rparr>" out s2 out2] Inr p by simp
    have k: "sticky s (snd (parse_quoted_string_loop str (s2\<lparr>i := Suc (i s2)\<rparr>) out'))"
      if "i s < length str" for out'
      using st ih [of "s2\<lparr>i := Suc (i s2)\<rparr>" out'] ge that sticky_trans by fastforce
    show ?thesis
      using k0 Inr p st k
      by (subst parse_quoted_string_loop.simps) (auto simp: sticky_fail_after)
  qed
qed

lemma parse_quoted_string_sticky: "sticky s (snd (parse_quoted_string str s))"
  using parse_quoted_string_loop_sticky [of "s\<lparr>i := i s + 1\<rparr>" str "[]"]
  by (simp add: parse_quoted_string_def)


lemma sticky_results:
  "fail s msg = (v, s') \<Longrightarrow> sticky s s'"
  "parse_quoted_string str s = (v, s') \<Longrightarrow> sticky s s'"
  "parse_number sv str s = (v, s') \<Longrightarrow> sticky s s'"
  "parse_unquoted_string str s = (v, s') \<Longrightarrow> sticky s s'"
  using sticky_fail [of s msg] parse_quoted_string_sticky [of s str]
  by (auto simp: parse_number_def parse_unquoted_string_def Let_def)

lemma preservesD: "preserves f \<Longrightarrow> f s = Some (Inr (v, s')) \<Longrightarrow> sticky s s'"
  by (auto simp: preserves_def)

lemma preservesD_after:
  "preserves f \<Longrightarrow> f s1 = Some (Inr (v, s')) \<Longrightarrow> sticky s s1 \<Longrightarrow> sticky s s'"
  by (blast intro: sticky_trans preservesD)

lemma parse_value_body_sticky:
  assumes "\<And>p. preserves (pa p)"
  shows "preserves (parse_value_body pa sv str)"
  unfolding preserves_def parse_value_body_def Let_def
  by (auto split: if_splits dest!: sticky_results preservesD [OF assms])

lemma parse_array_body_sticky:
  assumes "\<And>p keys arr. preserves (tbl p keys arr)"
    and "\<And>count k arr. preserves (stl count k arr)"
  shows "preserves (parse_array_body tbl stl str p)"
  unfolding preserves_def parse_array_body_def
  by (auto split: if_splits sum.splits prod.splits
      dest!: preservesD [OF assms(1)] preservesD [OF assms(2)])

lemma tabular_loop_body_sticky:
  assumes "\<And>keys obj. preserves (rl keys obj)"
    and "\<And>p keys arr. preserves (tbl p keys arr)"
  shows "preserves (tabular_loop_body rl tbl str p keys arr)"
  unfolding preserves_def tabular_loop_body_def Let_def
  by (auto split: if_splits option.splits sum.splits prod.splits row.splits
      dest!: preservesD [OF assms(1)] preservesD [OF assms(2)] intro: sticky_trans)

lemma row_loop_body_sticky:
  assumes "preserves pv"
    and "\<And>keys obj. preserves (rl keys obj)"
  shows "preserves (row_loop_body pv rl str keys obj)"
  unfolding preserves_def row_loop_body_def Let_def
  by (auto split: if_splits option.splits sum.splits prod.splits list.splits
      dest!: preservesD [OF assms(1)] preservesD [OF assms(2)] intro: sticky_trans)

lemma standard_loop_body_sticky:
  assumes "preserves pv"
    and "\<And>count k arr. preserves (stl count k arr)"
  shows "preserves (standard_loop_body pv stl str count k arr)"
  unfolding preserves_def standard_loop_body_def Let_def
  by (auto split: if_splits option.splits sum.splits prod.splits
      dest!: preservesD [OF assms(1)] preservesD [OF assms(2)] intro: sticky_trans)

lemma object_loop_body_sticky:
  assumes pv: "preserves pv"
    and pa: "\<And>p. preserves (pa p)"
    and po: "\<And>p. preserves (po p)"
    and ol: "\<And>p obj. preserves (ol p obj)"
  shows "preserves (object_loop_body pv pa po ol str p obj)"
  unfolding preserves_def
proof (intro allI impI)
  fix s v s'
  assume r: "object_loop_body pv pa po ol str p obj s = Some (Inr (v, s'))"
  define s1 where "s1 = consume_garbage str s"
  define ci where "ci = get_indent str s1"
  define k1 where "k1 = scan_while (\<lambda>c. c \<noteq> CHR '':'') str (i s1)"
  define s2 where "s2 = consume_whitespace str (s1\<lparr>i := k1 + 1\<rparr>)"
  define s3 where "s3 = consume_garbage str (s2\<lparr>i := i s2 + 1\<rparr>)"
  define E where "E = (if i s2 < length str \<and> str ! i s2 = CHR 0x0A then
                       (if at str (i s3) = CHR ''['' then pa ci s3 else po ci s3)
                     else if at str (i s2) = CHR ''['' then pa ci s2 else pv s2)"
  have st: "sticky s s1" "sticky s s2" "sticky s s3"
    by (simp_all add: s1_def s2_def s3_def)
  have e: "sticky s s4" if "E = Some (Inr (val, s4))" for val s4
  proof -
    have "sticky s2 s4 \<or> sticky s3 s4"
      using that preservesD [OF pv] preservesD [OF pa] preservesD [OF po]
      unfolding E_def by (metis (full_types))
    with st show ?thesis
      using sticky_trans by blast
  qed
  show "sticky s s'"
  proof (cases "i s < length str")
    case False
    with r show ?thesis by (simp add: object_loop_body_def)
  next
    case True
    note lt = this
    show ?thesis
    proof (cases "ci \<le> p \<and> obj \<noteq> []")
      case True
      with r lt st show ?thesis
        by (auto simp: object_loop_body_def Let_def s1_def [symmetric] ci_def [symmetric])
    next
      case False
      note nb = this
      show ?thesis
      proof (cases "k1 = length str")
        case True
        with r lt nb st show ?thesis
          by (auto simp: object_loop_body_def Let_def s1_def [symmetric] ci_def [symmetric]
              k1_def [symmetric])
      next
        case False
        with r lt nb have
          "(case E of None \<Rightarrow> None | Some (Inl e) \<Rightarrow> Some (Inl e)
            | Some (Inr (val, s4)) \<Rightarrow>
                ol p (map_assign (substr str (i s1) (k1 - i s1)) val obj) s4) = Some (Inr (v, s'))"
          unfolding object_loop_body_def Let_def E_def s3_def s2_def k1_def ci_def s1_def
          by (simp cong: if_cong)
        then obtain val s4 where "E = Some (Inr (val, s4))"
          and "ol p (map_assign (substr str (i s1) (k1 - i s1)) val obj) s4 = Some (Inr (v, s'))"
          by (auto split: option.splits sum.splits prod.splits)
        with e [of val s4] preservesD [OF ol] show ?thesis
          using sticky_trans by blast
      qed
    qed
  qed
qed

lemma parsers_sticky:
  "preserves (parse_value n sv str) \<and>
   (\<forall>p. preserves (parse_array n sv str p)) \<and>
   (\<forall>p keys arr. preserves (tabular_loop n sv str p keys arr)) \<and>
   (\<forall>keys obj. preserves (row_loop n sv str keys obj)) \<and>
   (\<forall>count k arr. preserves (standard_loop n sv str count k arr)) \<and>
   (\<forall>p. preserves (parse_object n sv str p)) \<and>
   (\<forall>p obj. preserves (object_loop n sv str p obj))"
proof (induction n)
  case 0
  show ?case by (simp add: preserves_def)
next
  case (Suc n)
  have "preserves (parse_value (Suc n) sv str)"
    using parse_value_body_sticky [of "parse_array n sv str" sv str] Suc
    by (simp add: preserves_def parse_value_Suc)
  moreover have "preserves (parse_array (Suc n) sv str p)" for p
    using parse_array_body_sticky [of "tabular_loop n sv str" "standard_loop n sv str" str p] Suc
    by (simp add: preserves_def parse_array_Suc)
  moreover have "preserves (tabular_loop (Suc n) sv str p keys arr)" for p keys arr
    using tabular_loop_body_sticky [of "row_loop n sv str" "tabular_loop n sv str" str p keys arr] Suc
    by (simp add: preserves_def tabular_loop_Suc)
  moreover have "preserves (row_loop (Suc n) sv str keys obj)" for keys obj
    using row_loop_body_sticky [of "parse_value n sv str" "row_loop n sv str" str keys obj] Suc
    by (simp add: preserves_def row_loop_Suc)
  moreover have "preserves (standard_loop (Suc n) sv str count k arr)" for count k arr
    using standard_loop_body_sticky [of "parse_value n sv str" "standard_loop n sv str" str count k arr] Suc
    by (simp add: preserves_def standard_loop_Suc)
  moreover have "preserves (parse_object (Suc n) sv str p)" for p
    using Suc by (simp add: preserves_def parse_object_Suc)
  moreover have "preserves (object_loop (Suc n) sv str p obj)" for p obj
    using object_loop_body_sticky [of "parse_value n sv str" "parse_array n sv str"
        "parse_object n sv str" "object_loop n sv str" str p obj] Suc
    by (simp add: preserves_def object_loop_Suc)
  ultimately show ?case by blast
qed

text \<open>
  C8. Every call of \<open>fail\<close> is a failure: it adds its message to the history. And for
  every run of \<open>parse_value\<close>, \<open>parse_array\<close> or \<open>parse_object\<close> that returns, with
  any number of failures: when the run starts with \<open>failed\<close> clear and fails, the stored
  message \<open>err\<close> at the end is the message of the first failure of the run, whatever
  failures followed while the methods returned; when the run starts with \<open>failed\<close> set,
  or does not fail, \<open>err\<close> is left as it was; and \<open>failed\<close> is set at the end exactly
  when it was set at the start or the run has failed.
\<close>

theorem first_error_sticky:
  "failures (snd (fail s msg)) = failures s @ [msg] \<and>
   (parse_value n sv str s = Some (Inr (v, s')) \<longrightarrow>
      (\<exists>new. failures s' = failures s @ new \<and> failed s' = (failed s \<or> new \<noteq> []) \<and>
         err s' = (if failed s \<or> new = [] then err s else hd new))) \<and>
   (parse_array n sv str p s = Some (Inr (v, s')) \<longrightarrow>
      (\<exists>new. failures s' = failures s @ new \<and> failed s' = (failed s \<or> new \<noteq> []) \<and>
         err s' = (if failed s \<or> new = [] then err s else hd new))) \<and>
   (parse_object n sv str p s = Some (Inr (v, s')) \<longrightarrow>
      (\<exists>new. failures s' = failures s @ new \<and> failed s' = (failed s \<or> new \<noteq> []) \<and>
         err s' = (if failed s \<or> new = [] then err s else hd new)))"
  using parsers_sticky [of n sv str]
  by (auto simp: fail_def sticky_iff [symmetric] dest: preservesD)

theorem first_error_sticky_witness:
  "parse_object 4 (\<lambda>t. 0)
     (''a: '' @ [CHR 0x22, CHR 0x5C] @ ''q'' @ [CHR 0x22, CHR 0x0A] @ ''b: '' @ [CHR 0x22] @ ''x'') (- 1)
     \<lparr>i = 0, err = [], failed = False, failures = []\<rparr> =
   Some (Inr (ToonObject [([CHR 0x22, CHR 0x0A] @ ''b'', ToonNull), (''a'', ToonNull)],
     \<lparr>i = 13, err = ''invalid escape'', failed = True,
      failures = [''invalid escape'', ''unfinished string'']\<rparr>)) \<and>
   parse_value 6 (\<lambda>t. 0) (''[2]: '' @ [CHR 0x22, CHR 0x5C] @ ''q, '' @ [CHR 0x22] @ ''x'')
     \<lparr>i = 0, err = ''old'', failed = False, failures = []\<rparr> =
   Some (Inr (ToonArray [ToonNull, ToonNull],
     \<lparr>i = 12, err = ''invalid escape'', failed = True,
      failures = [''invalid escape'', ''unfinished string'']\<rparr>)) \<and>
   parse_array 2 (\<lambda>t. 0) ''[0]:'' 0
     \<lparr>i = 0, err = ''old'', failed = False, failures = []\<rparr> =
   Some (Inr (ToonArray [], \<lparr>i = 4, err = ''old'', failed = False, failures = []\<rparr>)) \<and>
   parse_value 1 (\<lambda>t. 0) [CHR 0x22, CHR ''x'']
     \<lparr>i = 0, err = ''invalid escape'', failed = True, failures = [''invalid escape'']\<rparr> =
   Some (Inr (ToonNull,
     \<lparr>i = 2, err = ''invalid escape'', failed = True,
      failures = [''invalid escape'', ''unfinished string'']\<rparr>)) \<and>
   (\<exists>new. failures \<lparr>i = 13, err = ''invalid escape'', failed = True,
                     failures = [''invalid escape'', ''unfinished string'']\<rparr> =
            failures \<lparr>i = 0, err = [], failed = False, failures = []\<rparr> @ new \<and>
      new \<noteq> [] \<and>
      err \<lparr>i = 13, err = ''invalid escape'', failed = True,
            failures = [''invalid escape'', ''unfinished string'']\<rparr> = hd new)"
proof -
  have r: "parse_object 4 (\<lambda>t. 0)
     (''a: '' @ [CHR 0x22, CHR 0x5C] @ ''q'' @ [CHR 0x22, CHR 0x0A] @ ''b: '' @ [CHR 0x22] @ ''x'') (- 1)
     \<lparr>i = 0, err = [], failed = False, failures = []\<rparr> =
   Some (Inr (ToonObject [([CHR 0x22, CHR 0x0A] @ ''b'', ToonNull), (''a'', ToonNull)],
     \<lparr>i = 13, err = ''invalid escape'', failed = True,
      failures = [''invalid escape'', ''unfinished string'']\<rparr>))"
   "parse_value 6 (\<lambda>t. 0) (''[2]: '' @ [CHR 0x22, CHR 0x5C] @ ''q, '' @ [CHR 0x22] @ ''x'')
     \<lparr>i = 0, err = ''old'', failed = False, failures = []\<rparr> =
   Some (Inr (ToonArray [ToonNull, ToonNull],
     \<lparr>i = 12, err = ''invalid escape'', failed = True,
      failures = [''invalid escape'', ''unfinished string'']\<rparr>))"
   "parse_array 2 (\<lambda>t. 0) ''[0]:'' 0
     \<lparr>i = 0, err = ''old'', failed = False, failures = []\<rparr> =
   Some (Inr (ToonArray [], \<lparr>i = 4, err = ''old'', failed = False, failures = []\<rparr>))"
   "parse_value 1 (\<lambda>t. 0) [CHR 0x22, CHR ''x'']
     \<lparr>i = 0, err = ''invalid escape'', failed = True, failures = [''invalid escape'']\<rparr> =
   Some (Inr (ToonNull,
     \<lparr>i = 2, err = ''invalid escape'', failed = True,
      failures = [''invalid escape'', ''unfinished string'']\<rparr>))"
    by code_simp+
  show ?thesis
    using r
      first_error_sticky [of "\<lparr>i = 0, err = [], failed = False, failures = []\<rparr>" "''x''" 4 "\<lambda>t. 0"
        "''a: '' @ [CHR 0x22, CHR 0x5C] @ ''q'' @ [CHR 0x22, CHR 0x0A] @ ''b: '' @ [CHR 0x22] @ ''x''"
        "ToonObject [([CHR 0x22, CHR 0x0A] @ ''b'', ToonNull), (''a'', ToonNull)]"
        "\<lparr>i = 13, err = ''invalid escape'', failed = True,
          failures = [''invalid escape'', ''unfinished string'']\<rparr>" "- 1"]
    by simp
qed

text \<open>Two failures in one call of \<open>parse\<close>: the invalid escape in the first entry is
  reported, the unfinished string of the second is not.\<close>

lemma two_failures:
  "parse (Suc (Suc (Suc (Suc n)))) sv
     (''a: '' @ [CHR 0x22, CHR 0x5C] @ ''q'' @ [CHR 0x22, CHR 0x0A] @ ''b: '' @ [CHR 0x22] @ ''x'') [] =
   Some (Inr (ToonObject [([CHR 0x22, CHR 0x0A] @ ''b'', ToonNull), (''a'', ToonNull)], ''invalid escape''))"
  by code_simp

section \<open>Decoder: escapes and failures\<close>

lemma not_hex_u:
  "\<not> (CHR ''0'' \<le> CHR ''u'' \<and> CHR ''u'' \<le> CHR ''9'')"
  "\<not> (CHR ''a'' \<le> CHR ''u'' \<and> CHR ''u'' \<le> CHR ''f'')"
  "\<not> (CHR ''A'' \<le> CHR ''u'' \<and> CHR ''u'' \<le> CHR ''F'')"
  by code_simp+

text \<open>\<open>parse_unicode_codepoint\<close> is entered with the offset still on the \<open>u\<close>, which is
  the first of the four bytes it reads as hexadecimal digits: no \<open>\u\<close> escape is
  ever decoded.\<close>

lemma unicode_escape_fails:
  assumes "at str (i s) = CHR ''u''"
  shows "\<exists>r. unicode_escape str s out = Inl r \<and> failed (snd r)"
proof (cases "i s + 4 \<ge> length str")
  case True
  with assms show ?thesis
    by (simp add: unicode_escape_def parse_unicode_codepoint_def fail_def)
next
  case False
  then have "str ! i s = CHR ''u''"
    using assms by (simp add: at_def)
  then have "unicode_loop str (i s) 4 0 = (0, i s + 1, ''invalid unicode escape'')"
    using not_hex_u by (simp add: eval_nat_numeral Let_def)
  with False assms show ?thesis
    by (simp add: unicode_escape_def parse_unicode_codepoint_def fail_def)
qed

text \<open>
  C2, on the code: the text \<open>"A"\<close>, a quoted string with one escape of four
  valid hexadecimal digits, is not decoded to \<open>A\<close>: \<open>parse\<close> returns the null value and
  the error \<open>invalid unicode escape\<close>.
\<close>

theorem unicode_escape_rejected:
  "parse (Suc n) sv ([CHR 0x22, CHR 0x5C] @ ''u0041'' @ [CHR 0x22]) [] =
     Some (Inr (ToonNull, ''invalid unicode escape''))"
  by code_simp

text \<open>
  C5, on the code: the string of the bytes 0x01, newline, double quote and backslash is
  written as \<open>"\u0001\n\"\\"\<close>, and decoding that text fails at its first escape.
  The same happens to every string that is quoted and holds a control byte other than
  newline, carriage return and tab.
\<close>

theorem control_roundtrip_fails:
  "dump g17 (ToonString [CHR 0x01, CHR 0x0A, CHR 0x22, CHR 0x5C]) level =
     Some ([CHR 0x22, CHR 0x5C] @ ''u0001'' @ [CHR 0x5C] @ ''n'' @ [CHR 0x5C, CHR 0x22, CHR 0x5C, CHR 0x5C, CHR 0x22]) \<and>
   parse (Suc n) sv
     ([CHR 0x22, CHR 0x5C] @ ''u0001'' @ [CHR 0x5C] @ ''n'' @ [CHR 0x5C, CHR 0x22, CHR 0x5C, CHR 0x5C, CHR 0x22]) [] =
     Some (Inr (ToonNull, ''invalid unicode escape''))"
  by code_simp

text \<open>The escape \<open>\b\<close> that the encoder writes is rejected as well.\<close>

lemma backspace_escape_rejected:
  "dump_string [CHR 0x08, CHR 0x0A] = [CHR 0x22, CHR 0x5C] @ ''b'' @ [CHR 0x5C] @ ''n'' @ [CHR 0x22] \<and>
   parse (Suc n) sv (dump_string [CHR 0x08, CHR 0x0A]) [] = Some (Inr (ToonNull, ''invalid escape''))"
  by code_simp

text \<open>
  C7, on the code: for the text \<open>bad: "unterminated\<close> the string fails, \<open>parse_object\<close>
  stores the null value under the key and goes on with its loop, and \<open>parse\<close> returns
  the object, not the null value.
\<close>

theorem failure_not_propagated:
  "parse (Suc (Suc (Suc n))) sv (''bad: '' @ [CHR 0x22] @ ''unterminated'') [] =
     Some (Inr (ToonObject [(''bad'', ToonNull)], ''unfinished string''))"
  by code_simp

section \<open>Decoder: the top-level dispatch\<close>

lemma scan_while_stop: "scan_while P str k < length str \<Longrightarrow> \<not> P (str ! scan_while P str k)"
  by (induction P str k rule: scan_while.induct) (subst (asm) (3) scan_while.simps, subst scan_while.simps, auto split: if_splits)

lemma scan_while_idem: "scan_while P str (scan_while P str k) = scan_while P str k"
proof (cases "scan_while P str k < length str")
  case True
  then show ?thesis
    using scan_while_stop [of P str k] by (subst scan_while.simps) simp
next
  case False
  then show ?thesis by (subst scan_while.simps) simp
qed

lemma skip_garbage_significant:
  "skip_garbage str k < length str \<Longrightarrow>
     \<not> is_inline_space (str ! skip_garbage str k) \<and> str ! skip_garbage str k \<noteq> CHR ''#'' \<and>
     str ! skip_garbage str k \<noteq> CHR 0x0A"
proof (induction str k rule: skip_garbage.induct)
  case (1 str k)
  show ?case
  proof (cases "skip_whitespace str k < length str \<and> str ! skip_whitespace str k = CHR ''#''")
    case True
    with 1(1) [OF refl True] 1(3) show ?thesis
      by (subst (1 2 3) skip_garbage.simps) (simp add: Let_def, subst (asm) skip_garbage.simps, simp add: Let_def)
  next
    case False
    note nh = this
    show ?thesis
    proof (cases "skip_whitespace str k < length str \<and> str ! skip_whitespace str k = CHR 0x0A")
      case True
      with 1(2) [OF refl nh True] 1(3) nh show ?thesis
        by (subst (1 2 3) skip_garbage.simps) (simp add: Let_def, subst (asm) skip_garbage.simps, simp add: Let_def)
    next
      case False
      have e: "skip_garbage str k = skip_whitespace str k"
        using nh False by (subst skip_garbage.simps) (auto simp: Let_def)
      show ?thesis
        using nh False 1(3) scan_while_stop [of is_inline_space str k]
        unfolding e by (auto simp: skip_whitespace_def)
    qed
  qed
qed

lemma skip_garbage_le: "k \<le> length str \<Longrightarrow> skip_garbage str k \<le> length str"
proof (induction str k rule: skip_garbage.induct)
  case (1 str k)
  have a: "skip_whitespace str k \<le> length str"
    using 1(3) by (simp add: skip_whitespace_def scan_while_le)
  then have b: "scan_while (\<lambda>c. c \<noteq> CHR 0x0A) str (skip_whitespace str k) \<le> length str"
    by (rule scan_while_le)
  show ?case
    using 1(1) [OF refl _ b] 1(2) [OF refl] a
    by (subst skip_garbage.simps) (auto simp: Let_def)
qed

lemma skip_whitespace_skip_garbage:
  "skip_whitespace str (skip_garbage str k) = skip_garbage str k"
proof (cases "skip_garbage str k < length str")
  case True
  then show ?thesis
    using skip_garbage_significant [of str k]
    unfolding skip_whitespace_def by (subst scan_while.simps) simp
next
  case False
  then show ?thesis
    unfolding skip_whitespace_def by (subst scan_while.simps) simp
qed


lemma fail_type: "fst (fail s msg) = ToonNull"
  by (simp add: fail_def)

lemma unicode_escape_Inl_type: "unicode_escape str s out = Inl r \<Longrightarrow> fst r = ToonNull"
  by (auto simp: unicode_escape_def fail_def split: if_splits prod.splits)

lemma parse_quoted_string_loop_type:
  "type (fst (parse_quoted_string_loop str s out)) = STRING \<or>
   fst (parse_quoted_string_loop str s out) = ToonNull"
proof (induction "length str - i s" arbitrary: s out rule: less_induct)
  case less
  have ih: "type (fst (parse_quoted_string_loop str s' out')) = STRING \<or>
      fst (parse_quoted_string_loop str s' out') = ToonNull"
    if "i s < i s'" "i s < length str" for s' out'
    using less [of s' out'] that by simp
  show ?case
  proof (cases "unicode_escape str (s\<lparr>i := i s + 1\<rparr>) out")
    case (Inl r)
    with unicode_escape_Inl_type [OF Inl] ih [of "s\<lparr>i := Suc (i s)\<rparr>"] show ?thesis
      by (subst (1 2) parse_quoted_string_loop.simps) (auto simp: fail_type)
  next
    case (Inr p)
    obtain s2 out2 where p: "p = (s2, out2)" by (cases p)
    have ge: "i s < i s2"
      using unicode_escape_ge [of str "s\<lparr>i := i s + 1\<rparr>" out s2 out2] Inr p by simp
    have k: "type (fst (parse_quoted_string_loop str (s2\<lparr>i := Suc (i s2)\<rparr>) out')) = STRING \<or>
        fst (parse_quoted_string_loop str (s2\<lparr>i := Suc (i s2)\<rparr>) out') = ToonNull"
      if "i s < length str" for out'
      using ih [of "s2\<lparr>i := Suc (i s2)\<rparr>" out'] ge that by simp
    show ?thesis
      using ih [of "s\<lparr>i := Suc (i s)\<rparr>"] Inr p k
      by (subst (1 2) parse_quoted_string_loop.simps) (auto simp: fail_type)
  qed
qed

lemma parse_value_scalar:
  assumes "str ! i (consume_whitespace str s) \<noteq> CHR ''[''"
  shows "\<exists>v s'. parse_value (Suc n) sv str s = Some (Inr (v, s')) \<and> type v \<noteq> ARRAY \<and> type v \<noteq> OBJECT"
proof -
  have q: "type (fst (parse_quoted_string str t)) \<noteq> ARRAY \<and> type (fst (parse_quoted_string str t)) \<noteq> OBJECT" for t
    using parse_quoted_string_loop_type [of str "t\<lparr>i := i t + 1\<rparr>" "[]"]
    by (auto simp: parse_quoted_string_def)
  show ?thesis
    using assms q [of "consume_whitespace str s"]
    by (cases "parse_quoted_string str (consume_whitespace str s)")
      (auto simp: parse_value_Suc parse_value_body_def Let_def fail_def parse_number_def
        parse_unquoted_string_def)
qed

text \<open>
  C6, as the code has it. \<open>parse\<close> skips white space, comments and blank lines: what is
  left is empty or begins with a byte that is none of these. It returns the null value
  when nothing is left; it parses an array (with \<open>parent_indent = -1\<close>) when the first
  byte left is \<open>[\<close>; else it parses an object with threshold \<open>-1\<close> exactly when the
  whole input, skipped comments included, holds a colon; and else it parses one value,
  which is then a scalar and always returned.
\<close>

theorem parse_dispatch:
  assumes "parser = consume_garbage input \<lparr>i = 0, err = err0, failed = False, failures = []\<rparr>"
    and "rest = drop (i parser) input"
  shows
    "(rest = [] \<longrightarrow> parse n sv input err0 = Some (Inr (ToonNull, err0))) \<and>
     (rest \<noteq> [] \<longrightarrow> \<not> is_inline_space (hd rest) \<and> hd rest \<noteq> CHR ''#'' \<and> hd rest \<noteq> CHR 0x0A) \<and>
     (rest \<noteq> [] \<and> hd rest = CHR ''['' \<longrightarrow>
        parse (Suc n) sv input err0 =
          map_option (map_sum id (\<lambda>(v, s). (v, err s))) (parse_array n sv input (-1) parser)) \<and>
     (rest \<noteq> [] \<and> hd rest \<noteq> CHR ''['' \<and> CHR '':'' \<in> set input \<longrightarrow>
        parse n sv input err0 =
          map_option (map_sum id (\<lambda>(v, s). (v, err s))) (parse_object n sv input (-1) parser)) \<and>
     (rest \<noteq> [] \<and> hd rest \<noteq> CHR ''['' \<and> CHR '':'' \<notin> set input \<longrightarrow>
        parse (Suc n) sv input err0 =
          map_option (map_sum id (\<lambda>(v, s). (v, err s))) (parse_value (Suc n) sv input parser) \<and>
        (\<exists>v e. parse (Suc n) sv input err0 = Some (Inr (v, e)) \<and> type v \<noteq> ARRAY \<and> type v \<noteq> OBJECT))"
proof -
  have ip: "i parser = skip_garbage input 0" and ep: "err parser = err0"
    using assms(1) by (simp_all add: consume_garbage_def)
  have cw: "consume_whitespace input parser = parser"
    using ip skip_whitespace_skip_garbage [of input 0] by (simp add: consume_whitespace_def)
  have le: "i parser \<le> length input"
    using ip scan_while_le skip_garbage_le by simp
  have r0: "rest = [] \<longleftrightarrow> i parser = length input"
    using assms(2) le by auto
  have hd: "hd rest = input ! i parser" if "rest \<noteq> []"
    using that assms(2) by (simp add: hd_drop_conv_nth)
  have sig: "\<not> is_inline_space (hd rest) \<and> hd rest \<noteq> CHR ''#'' \<and> hd rest \<noteq> CHR 0x0A" if "rest \<noteq> []"
    using that hd r0 le skip_garbage_significant [of input 0] ip by simp
  have p: "parse m sv input err0 =
      (if i parser = length input then Some (Inr (ToonNull, err0))
       else map_option (map_sum id (\<lambda>(v, s). (v, err s)))
          (if input ! i parser = CHR ''['' then parse_value m sv input parser
           else if CHR '':'' \<in> set input then parse_object m sv input (-1) parser
           else parse_value m sv input parser))" for m
    unfolding parse_def assms(1) [symmetric] Let_def ep by simp
  have arr: "parse_value (Suc n) sv input parser = parse_array n sv input (-1) parser"
    if "rest \<noteq> []" "hd rest = CHR ''[''"
    using that hd r0 cw by (simp add: parse_value_Suc parse_value_body_def)
  have sc: "\<exists>v s'. parse_value (Suc n) sv input parser = Some (Inr (v, s')) \<and> type v \<noteq> ARRAY \<and> type v \<noteq> OBJECT"
    if "rest \<noteq> []" "hd rest \<noteq> CHR ''[''"
    using that hd cw parse_value_scalar [of input parser n sv] by simp
  show ?thesis
    using r0 hd sig arr sc by (auto simp: p)
qed


theorem parse_dispatch_witness:
  "parse (Suc 2) (\<lambda>t. 0) ''  # c'' [] = Some (Inr (ToonNull, [])) \<and>
   parse (Suc 2) (\<lambda>t. 0) '' [0]:'' [] = Some (Inr (ToonArray [], [])) \<and>
   parse (Suc 2) (\<lambda>t. 0) ''a: x'' [] = Some (Inr (ToonObject [(''a'', ToonString ''x'')], [])) \<and>
   parse (Suc 2) (\<lambda>t. 0) ''hello'' [] = Some (Inr (ToonString ''hello'', []))"
proof -
  have g: "consume_garbage ''  # c'' \<lparr>i = 0, err = [], failed = False, failures = []\<rparr> = \<lparr>i = 5, err = [], failed = False, failures = []\<rparr>"
    "consume_garbage '' [0]:'' \<lparr>i = 0, err = [], failed = False, failures = []\<rparr> = \<lparr>i = 1, err = [], failed = False, failures = []\<rparr>"
    "consume_garbage ''a: x'' \<lparr>i = 0, err = [], failed = False, failures = []\<rparr> = \<lparr>i = 0, err = [], failed = False, failures = []\<rparr>"
    "consume_garbage ''hello'' \<lparr>i = 0, err = [], failed = False, failures = []\<rparr> = \<lparr>i = 0, err = [], failed = False, failures = []\<rparr>"
    by code_simp+
  have r: "parse_array 2 (\<lambda>t. 0) '' [0]:'' (- 1) \<lparr>i = Suc 0, err = [], failed = False, failures = []\<rparr> =
        Some (Inr (ToonArray [], \<lparr>i = 5, err = [], failed = False, failures = []\<rparr>))"
    "parse_object 3 (\<lambda>t. 0) ''a: x'' (- 1) \<lparr>i = 0, err = [], failed = False, failures = []\<rparr> =
        Some (Inr (ToonObject [(''a'', ToonString ''x'')], \<lparr>i = 4, err = [], failed = False, failures = []\<rparr>))"
    "parse_value 3 (\<lambda>t. 0) ''hello'' \<lparr>i = 0, err = [], failed = False, failures = []\<rparr> =
        Some (Inr (ToonString ''hello'', \<lparr>i = 5, err = [], failed = False, failures = []\<rparr>))"
    by code_simp+
  show ?thesis
    using parse_dispatch [OF refl refl, of "''  # c''" "[]" "Suc 2" "\<lambda>t. 0"]
      parse_dispatch [OF refl refl, of "'' [0]:''" "[]" 2 "\<lambda>t. 0"]
      parse_dispatch [OF refl refl, of "''a: x''" "[]" "Suc 2" "\<lambda>t. 0"]
      parse_dispatch [OF refl refl, of "''hello''" "[]" 2 "\<lambda>t. 0"]
    by (simp add: g r)
qed

text \<open>
  C6, as the specification states it, fails when the only colon stands in a skipped
  comment: for the text \<open>#:\<close>, newline, \<open>x\<close> nothing of what is left holds a colon, and
  \<open>parse\<close> still takes the object path and returns the empty object, where the scalar
  path returns the string \<open>x\<close>.
\<close>

theorem parse_colon_in_comment_counterexample:
  "CHR '':'' \<notin> set (drop (i (consume_garbage (''#:'' @ [CHR 0x0A] @ ''x'') \<lparr>i = 0, err = [], failed = False, failures = []\<rparr>))
      (''#:'' @ [CHR 0x0A] @ ''x'')) \<and>
   parse 3 (\<lambda>t. 0) (''#:'' @ [CHR 0x0A] @ ''x'') [] = Some (Inr (ToonObject [], [])) \<and>
   parse_value 3 (\<lambda>t. 0) (''#:'' @ [CHR 0x0A] @ ''x'')
     (consume_garbage (''#:'' @ [CHR 0x0A] @ ''x'') \<lparr>i = 0, err = [], failed = False, failures = []\<rparr>) =
     Some (Inr (ToonString ''x'', \<lparr>i = 4, err = [], failed = False, failures = []\<rparr>))"
  by code_simp

section \<open>Round trip\<close>



lemma scan_while_end: "k \<ge> length str \<Longrightarrow> scan_while P str k = k"
  by (subst scan_while.simps) simp










lemma Toon_eq_scalar_refl: "scalar_roundtrip v \<Longrightarrow> Toon_eq v v = Some True"
  by (cases v) simp_all




text \<open>Further values that do not survive the round trip: a quoted string with a colon
  is read as an object, a string that begins with \<open>null\<close> as the null value, a leading
  space is lost, and an array of one empty object comes back empty.\<close>

lemma roundtrip_other_failures:
  "dump g17 (ToonString (CHR 0x22 # ''a:b'' @ [CHR 0x22])) 0 = Some ([CHR 0x22, CHR 0x5C, CHR 0x22] @ ''a:b'' @ [CHR 0x5C, CHR 0x22, CHR 0x22])"
  "dump g17 (ToonString ''a:b'') 0 = Some (CHR 0x22 # ''a:b'' @ [CHR 0x22])"
  "parse (Suc (Suc (Suc n))) sv (CHR 0x22 # ''a:b'' @ [CHR 0x22]) [] =
     Some (Inr (ToonObject [([CHR 0x22, CHR ''a''], ToonString [CHR ''b'', CHR 0x22])], []))"
  "dump g17 (ToonString ''nullable'') 0 = Some ''nullable''"
  "parse (Suc n) sv ''nullable'' [] = Some (Inr (ToonNull, []))"
  "dump g17 (ToonString '' a'') 0 = Some '' a''"
  "parse (Suc n) sv '' a'' [] = Some (Inr (ToonString ''a'', []))"
  "dump g17 (ToonArray [ToonObject []]) 0 = Some ''[1]: ''"
  "parse (Suc (Suc (Suc n))) sv ''[1]: '' [] = Some (Inr (ToonArray [], []))"
  by code_simp+

section \<open>Decoder: fuel\<close>

lemma extendsD: "extends f g \<Longrightarrow> f s = Some r \<Longrightarrow> g s = Some r"
  by (simp add: extends_def)

lemma extends_refl [simp]: "extends f f"
  by (simp add: extends_def)

lemma parse_value_body_mono:
  assumes "\<And>p. extends (pa p) (pa' p)"
  shows "extends (parse_value_body pa sv str) (parse_value_body pa' sv str)"
  unfolding extends_def parse_value_body_def Let_def
  using extendsD [OF assms] by auto

lemma parse_array_body_mono:
  assumes "\<And>p keys arr. extends (tbl p keys arr) (tbl' p keys arr)"
    and "\<And>count k arr. extends (stl count k arr) (stl' count k arr)"
  shows "extends (parse_array_body tbl stl str p) (parse_array_body tbl' stl' str p)"
  unfolding extends_def parse_array_body_def
  using extendsD [OF assms(1)] extendsD [OF assms(2)]
  by (auto split: sum.splits prod.splits)

lemma tabular_loop_body_mono:
  assumes "\<And>keys obj. extends (rl keys obj) (rl' keys obj)"
    and "\<And>p keys arr. extends (tbl p keys arr) (tbl' p keys arr)"
  shows "extends (tabular_loop_body rl tbl str p keys arr) (tabular_loop_body rl' tbl' str p keys arr)"
  unfolding extends_def
proof (intro allI impI)
  fix s r
  assume a: "tabular_loop_body rl tbl str p keys arr s = Some r"
  define s1 where "s1 = consume_garbage str s"
  show "tabular_loop_body rl' tbl' str p keys arr s = Some r"
  proof (cases "rl keys [] s1")
    case None
    with a show ?thesis
      by (auto simp: tabular_loop_body_def Let_def s1_def split: if_splits)
  next
    case (Some x)
    then have "rl' keys [] s1 = Some x"
      using extendsD [OF assms(1)] by simp
    with a Some extendsD [OF assms(2)] show ?thesis
      by (auto simp: tabular_loop_body_def Let_def s1_def
          split: if_splits sum.splits prod.splits row.splits)
  qed
qed

lemma row_loop_body_mono:
  assumes "extends pv pv'"
    and "\<And>keys obj. extends (rl keys obj) (rl' keys obj)"
  shows "extends (row_loop_body pv rl str keys obj) (row_loop_body pv' rl' str keys obj)"
  unfolding extends_def
proof (intro allI impI)
  fix s r
  assume a: "row_loop_body pv rl str keys obj s = Some r"
  define s1 where "s1 = consume_whitespace str s"
  show "row_loop_body pv' rl' str keys obj s = Some r"
  proof (cases "pv s1")
    case None
    with a show ?thesis
      by (auto simp: row_loop_body_def Let_def s1_def split: if_splits list.splits)
  next
    case (Some x)
    then have "pv' s1 = Some x"
      using extendsD [OF assms(1)] by simp
    with a Some extendsD [OF assms(2)] show ?thesis
      by (auto simp: row_loop_body_def Let_def s1_def
          split: if_splits sum.splits prod.splits list.splits)
  qed
qed

lemma standard_loop_body_mono:
  assumes "extends pv pv'"
    and "\<And>count k arr. extends (stl count k arr) (stl' count k arr)"
  shows "extends (standard_loop_body pv stl str count k arr) (standard_loop_body pv' stl' str count k arr)"
  unfolding extends_def
proof (intro allI impI)
  fix s r
  assume a: "standard_loop_body pv stl str count k arr s = Some r"
  define s1 where "s1 = consume_garbage str s"
  show "standard_loop_body pv' stl' str count k arr s = Some r"
  proof (cases "pv s1")
    case None
    with a show ?thesis
      by (auto simp: standard_loop_body_def Let_def s1_def split: if_splits)
  next
    case (Some x)
    then have "pv' s1 = Some x"
      using extendsD [OF assms(1)] by simp
    with a Some extendsD [OF assms(2)] show ?thesis
      by (auto simp: standard_loop_body_def Let_def s1_def
          split: if_splits sum.splits prod.splits)
  qed
qed


lemma object_loop_body_mono:
  assumes pv: "extends pv pv'"
    and pa: "\<And>p. extends (pa p) (pa' p)"
    and po: "\<And>p. extends (po p) (po' p)"
    and ol: "\<And>p obj. extends (ol p obj) (ol' p obj)"
  shows "extends (object_loop_body pv pa po ol str p obj) (object_loop_body pv' pa' po' ol' str p obj)"
  unfolding extends_def
proof (intro allI impI)
  fix s r
  assume a: "object_loop_body pv pa po ol str p obj s = Some r"
  define s1 where "s1 = consume_garbage str s"
  define ci where "ci = get_indent str s1"
  define k1 where "k1 = scan_while (\<lambda>c. c \<noteq> CHR '':'') str (i s1)"
  define s2 where "s2 = consume_whitespace str (s1\<lparr>i := k1 + 1\<rparr>)"
  define s3 where "s3 = consume_garbage str (s2\<lparr>i := i s2 + 1\<rparr>)"
  define E :: "(ToonParser \<Rightarrow> toon result) \<Rightarrow> (int \<Rightarrow> ToonParser \<Rightarrow> toon result) \<Rightarrow>
      (int \<Rightarrow> ToonParser \<Rightarrow> toon result) \<Rightarrow> toon result"
    where "E = (\<lambda>pv pa po. (if i s2 < length str \<and> str ! i s2 = CHR 0x0A then
                       (if at str (i s3) = CHR ''['' then pa ci s3 else po ci s3)
                     else if at str (i s2) = CHR ''['' then pa ci s2 else pv s2))"
  have e: "E pv' pa' po' = Some x" if "E pv pa po = Some x" for x
    using that extendsD [OF pv] extendsD [OF pa] extendsD [OF po]
    unfolding E_def by (auto split: if_splits)
  have u: "object_loop_body pv pa po ol str p obj s =
      (if i s < length str then
         if ci \<le> p \<and> obj \<noteq> [] then Some (Inr (ToonObject obj, s1))
         else if k1 = length str then Some (Inr (ToonObject obj, s1\<lparr>i := k1\<rparr>))
         else (case E pv pa po of None \<Rightarrow> None | Some (Inl e) \<Rightarrow> Some (Inl e)
               | Some (Inr (val, s4)) \<Rightarrow> ol p (map_assign (substr str (i s1) (k1 - i s1)) val obj) s4)
       else Some (Inr (ToonObject obj, s)))" for pv pa po ol
    unfolding object_loop_body_def Let_def E_def s3_def s2_def k1_def ci_def s1_def
    by (simp cong: if_cong)
  show "object_loop_body pv' pa' po' ol' str p obj s = Some r"
  proof (cases "E pv pa po")
    case None
    with a show ?thesis
      unfolding u by (auto split: if_splits)
  next
    case (Some x)
    with a e [OF Some] extendsD [OF ol] show ?thesis
      unfolding u by (auto split: if_splits sum.splits prod.splits)
  qed
qed

lemma fuel_step:
  "extends (parse_value n sv str) (parse_value (Suc n) sv str) \<and>
   (\<forall>p. extends (parse_array n sv str p) (parse_array (Suc n) sv str p)) \<and>
   (\<forall>p keys arr. extends (tabular_loop n sv str p keys arr) (tabular_loop (Suc n) sv str p keys arr)) \<and>
   (\<forall>keys obj. extends (row_loop n sv str keys obj) (row_loop (Suc n) sv str keys obj)) \<and>
   (\<forall>count k arr. extends (standard_loop n sv str count k arr) (standard_loop (Suc n) sv str count k arr)) \<and>
   (\<forall>p. extends (parse_object n sv str p) (parse_object (Suc n) sv str p)) \<and>
   (\<forall>p obj. extends (object_loop n sv str p obj) (object_loop (Suc n) sv str p obj))"
proof (induction n)
  case 0
  show ?case by (simp add: extends_def)
next
  case (Suc n)
  have "extends (parse_value (Suc n) sv str) (parse_value (Suc (Suc n)) sv str)"
    using parse_value_body_mono [of "parse_array n sv str" "parse_array (Suc n) sv str" sv str] Suc
    by (simp add: extends_def parse_value_Suc)
  moreover have "extends (parse_array (Suc n) sv str p) (parse_array (Suc (Suc n)) sv str p)" for p
    using parse_array_body_mono [of "tabular_loop n sv str" "tabular_loop (Suc n) sv str"
        "standard_loop n sv str" "standard_loop (Suc n) sv str" str p] Suc
    by (simp add: extends_def parse_array_Suc)
  moreover have "extends (tabular_loop (Suc n) sv str p keys arr) (tabular_loop (Suc (Suc n)) sv str p keys arr)"
    for p keys arr
    using tabular_loop_body_mono [of "row_loop n sv str" "row_loop (Suc n) sv str"
        "tabular_loop n sv str" "tabular_loop (Suc n) sv str" str p keys arr] Suc
    by (simp add: extends_def tabular_loop_Suc)
  moreover have "extends (row_loop (Suc n) sv str keys obj) (row_loop (Suc (Suc n)) sv str keys obj)"
    for keys obj
    using row_loop_body_mono [of "parse_value n sv str" "parse_value (Suc n) sv str"
        "row_loop n sv str" "row_loop (Suc n) sv str" str keys obj] Suc
    by (simp add: extends_def row_loop_Suc)
  moreover have "extends (standard_loop (Suc n) sv str count k arr)
      (standard_loop (Suc (Suc n)) sv str count k arr)" for count k arr
    using standard_loop_body_mono [of "parse_value n sv str" "parse_value (Suc n) sv str"
        "standard_loop n sv str" "standard_loop (Suc n) sv str" str count k arr] Suc
    by (simp add: extends_def standard_loop_Suc)
  moreover have "extends (parse_object (Suc n) sv str p) (parse_object (Suc (Suc n)) sv str p)" for p
    using Suc by (simp add: extends_def parse_object_Suc)
  moreover have "extends (object_loop (Suc n) sv str p obj) (object_loop (Suc (Suc n)) sv str p obj)"
    for p obj
    using object_loop_body_mono [of "parse_value n sv str" "parse_value (Suc n) sv str"
        "parse_array n sv str" "parse_array (Suc n) sv str"
        "parse_object n sv str" "parse_object (Suc n) sv str"
        "object_loop n sv str" "object_loop (Suc n) sv str" str p obj] Suc
    by (simp add: extends_def object_loop_Suc)
  ultimately show ?case by blast
qed

lemma parse_fuel_step: "parse n sv input err0 = Some r \<Longrightarrow> parse (Suc n) sv input err0 = Some r"
  using fuel_step [of n sv input]
  by (auto simp: parse_def Let_def extends_def split: if_splits)

text \<open>More fuel never changes a result: what \<open>parse\<close> returns with some fuel is what it
  returns with any larger fuel, and so what the C++ returns.\<close>

lemma parse_fuel_mono: "parse n sv input err0 = Some r \<Longrightarrow> parse (n + k) sv input err0 = Some r"
  by (induction k) (simp_all add: parse_fuel_step)

end
